theory Spec2Isabelle
  imports Complex_Main "HOL-Library.Multiset"
begin

section \<open>JavaScript strings\<close>

text \<open>
  A JavaScript string is a sequence of UTF-16 code units. It is modelled as a
  \<^typ>\<open>string\<close> whose characters are the code units below 256, so \<open>length\<close> is the
  \<^verbatim>\<open>.length\<close> of the source. Within that range the characters that
  \<^verbatim>\<open>String.prototype.trim\<close> removes (white space and line terminators) are
  TAB, LF, VT, FF, CR, SPACE and NBSP.
\<close>

definition is_ws :: "char \<Rightarrow> bool" where
  "is_ws c = (c = CHR 0x09 \<or> c = CHR 0x0A \<or> c = CHR 0x0B \<or> c = CHR 0x0C \<or> c = CHR 0x0D
     \<or> c = CHR 0x20 \<or> c = CHR 0xA0)"

definition trim :: "string \<Rightarrow> string" where
  "trim s = rev (dropWhile is_ws (rev (dropWhile is_ws s)))"

text \<open>\<^verbatim>\<open>s.startsWith(p)\<close>\<close>

fun startsWith :: "string \<Rightarrow> string \<Rightarrow> bool" where
  "startsWith s [] = True"
| "startsWith [] (p # ps) = False"
| "startsWith (c # cs) (p # ps) = (c = p \<and> startsWith cs ps)"

text \<open>
  \<^verbatim>\<open>s.replace(/pat/g, rep)\<close> for a literal, non-empty pattern: every leftmost,
  non-overlapping occurrence is replaced. The counter says how many characters of an
  occurrence already replaced are still to be skipped.
\<close>

fun replace_all_from :: "string \<Rightarrow> string \<Rightarrow> nat \<Rightarrow> string \<Rightarrow> string" where
  "replace_all_from pat rep skip [] = []"
| "replace_all_from pat rep skip (c # cs) =
     (if 0 < skip then replace_all_from pat rep (skip - 1) cs
      else if startsWith (c # cs) pat then rep @ replace_all_from pat rep (length pat - 1) cs
      else c # replace_all_from pat rep 0 cs)"

definition replace_all :: "string \<Rightarrow> string \<Rightarrow> string \<Rightarrow> string" where
  "replace_all pat rep s = replace_all_from pat rep 0 s"

text \<open>\<^verbatim>\<open>s.replace(pat, rep)\<close> for a string pattern: the first occurrence only.\<close>

fun replace_first :: "string \<Rightarrow> string \<Rightarrow> string \<Rightarrow> string" where
  "replace_first pat rep [] = (if pat = [] then rep else [])"
| "replace_first pat rep (c # cs) =
     (if startsWith (c # cs) pat then rep @ drop (length pat) (c # cs)
      else c # replace_first pat rep cs)"

section \<open>The canonical record\<close>

text \<open>The \<^verbatim>\<open>{ date, headline }\<close> objects that both servers cache and serve.\<close>

record entry =
  date :: string
  headline :: string

section \<open>server.js: the markup parser and the /news handler\<close>

text \<open>
  \<^verbatim>\<open>function formatDate(d) {
    return d.replace(/&nbsp;/g, " ").replace("Hrs IST", "").trim(); }\<close>
\<close>

definition formatDate :: "string \<Rightarrow> string" where
  "formatDate d = trim (replace_first ''Hrs IST'' '''' (replace_all ''&nbsp;'' '' '' d))"

text \<open>
  The DOM query library (cheerio) is an external collaborator. A loaded document is
  represented by what the selectors of \<^verbatim>\<open>parseHtmlNews\<close> select in it: the elements
  of class \<^verbatim>\<open>GrNewsMainCont\<close> in document order, each with the text contents of its
  descendants of class \<^verbatim>\<open>GrNewsHead\<close> and of class \<^verbatim>\<open>GrNewsDate\<close>. A container
  without such a descendant has the empty list there, and \<^verbatim>\<open>.text()\<close> of a selection
  is the concatenation of the texts of its elements, \<^verbatim>\<open>""\<close> for an empty selection.
\<close>

record container =
  GrNewsHead :: "string list"
  GrNewsDate :: "string list"

definition text_of :: "string list \<Rightarrow> string" where
  "text_of sel = concat sel"

text \<open>
  \<^verbatim>\<open>$(".GrNewsMainCont").each((_, el) => {
    const headline = $(el).find(".GrNewsHead").text().trim();
    const date = $(el).find(".GrNewsDate").text().trim();
    if (headline && date) news.push({ date: formatDate(date), headline });
  });\<close>
  The loop threads the array \<^verbatim>\<open>news\<close>; a string is truthy when it is not empty.
\<close>

fun each_container :: "container list \<Rightarrow> entry list \<Rightarrow> entry list" where
  "each_container [] news = news"
| "each_container (el # els) news =
     (let headline = trim (text_of (GrNewsHead el));
          date = trim (text_of (GrNewsDate el))
      in each_container els
           (if headline \<noteq> [] \<and> date \<noteq> []
            then news @ [\<lparr>date = formatDate date, headline = headline\<rparr>]
            else news))"

definition parseHtmlNews :: "container list \<Rightarrow> entry list" where
  "parseHtmlNews html = each_container html []"

text \<open>
  \<^verbatim>\<open>fetchNews(url)\<close> awaits \<^verbatim>\<open>axios.get\<close>, which rejects on a transport error or
  a non-2xx status, and parses the body. The outcome of the request is an input of
  the model: the call throws, or there is a document.
\<close>

datatype http_result = HttpError | HttpOk "container list"

fun fetchNews :: "http_result \<Rightarrow> entry list option" where
  "fetchNews HttpError = None"
| "fetchNews (HttpOk html) = Some (parseHtmlNews html)"

record cachedNews =
  cn_general :: "entry list"
  cn_derivative :: "entry list"

record server_state =
  cached_news :: cachedNews
  lastFetched :: int

definition CACHE_TTL :: int where
  "CACHE_TTL = 60 * 1000"

definition server_init :: server_state where
  "server_init = \<lparr>cached_news = \<lparr>cn_general = [], cn_derivative = []\<rparr>, lastFetched = 0\<rparr>"

text \<open>
  One request to \<^verbatim>\<open>/news\<close>: the state before, \<^verbatim>\<open>Date.now()\<close>, and the outcomes of
  the two upstream requests (consulted only past the TTL). The result is the JSON
  body sent, the state after, and whether the upstream was asked.
  \<^verbatim>\<open>Promise.all\<close> rejects as soon as either fetch rejects, and the handler's
  \<^verbatim>\<open>catch\<close> only sends \<^verbatim>\<open>cachedNews\<close>.
\<close>

record reply =
  sent :: cachedNews
  state_after :: server_state
  fetched :: bool

definition news_handler :: "server_state \<Rightarrow> int \<Rightarrow> http_result \<Rightarrow> http_result \<Rightarrow> reply" where
  "news_handler st now nb_general nb_derivative =
     (if now - lastFetched st < CACHE_TTL
      then \<lparr>sent = cached_news st, state_after = st, fetched = False\<rparr>
      else (case fetchNews nb_general of
              None \<Rightarrow> \<lparr>sent = cached_news st, state_after = st, fetched = True\<rparr>
            | Some general \<Rightarrow>
               (case fetchNews nb_derivative of
                  None \<Rightarrow> \<lparr>sent = cached_news st, state_after = st, fetched = True\<rparr>
                | Some derivative \<Rightarrow>
                    (let c = \<lparr>cn_general = general, cn_derivative = derivative\<rparr>
                     in \<lparr>sent = c,
                         state_after = \<lparr>cached_news = c, lastFetched = now\<rparr>,
                         fetched = True\<rparr>))))"

section \<open>JavaScript values\<close>

text \<open>
  The values that reach app.js: what \<^verbatim>\<open>JSON.parse\<close> returns (null, booleans, numbers,
  strings, arrays, objects with each key once), and \<^verbatim>\<open>undefined\<close> for a property
  that is absent. A finite number is the rational it denotes (\<^verbatim>\<open>-0\<close> is \<open>0\<close>);
  a literal too large for a double parses to an infinity.
\<close>

datatype jsval =
    JUndefined
  | JNull
  | JBool bool
  | JNum rat
  | JInf
  | JNegInf
  | JStr string
  | JArr "jsval list"
  | JObj "(string \<times> jsval) list"

text \<open>
  What app.js can throw: a \<^verbatim>\<open>TypeError\<close> of the language (a property read on
  \<^verbatim>\<open>null\<close>, an object that has no primitive value), the \<^verbatim>\<open>SyntaxError\<close> of
  \<^verbatim>\<open>JSON.parse\<close>, a rejected \<^verbatim>\<open>fetch\<close>, and
  \<^verbatim>\<open>new Error("ACESPHERE returned HTML")\<close>.
\<close>

datatype error = TypeError | SyntaxError | FetchFailed | ReturnedHTML

text \<open>\<^verbatim>\<open>ToBoolean\<close>: the operand of \<^verbatim>\<open>!\<close>, \<^verbatim>\<open>||\<close>, \<^verbatim>\<open>?:\<close> and \<^verbatim>\<open>filter\<close>.\<close>

fun truthy :: "jsval \<Rightarrow> bool" where
  "truthy JUndefined = False"
| "truthy JNull = False"
| "truthy (JBool b) = b"
| "truthy (JNum r) = (r \<noteq> 0)"
| "truthy JInf = True"
| "truthy JNegInf = True"
| "truthy (JStr s) = (s \<noteq> [])"
| "truthy (JArr vs) = True"
| "truthy (JObj kvs) = True"

text \<open>
  \<^verbatim>\<open>v.name\<close> for a value other than \<^verbatim>\<open>null\<close> and \<^verbatim>\<open>undefined\<close>, and a name
  that no prototype defines (every name app.js reads): the own property of an object,
  \<^verbatim>\<open>undefined\<close> otherwise.
\<close>

fun get_prop :: "jsval \<Rightarrow> string \<Rightarrow> jsval" where
  "get_prop (JObj kvs) name = (case map_of kvs name of None \<Rightarrow> JUndefined | Some v \<Rightarrow> v)"
| "get_prop v name = JUndefined"

text \<open>\<^verbatim>\<open>obj?.name\<close>\<close>

definition opt_prop :: "jsval \<Rightarrow> string \<Rightarrow> jsval" where
  "opt_prop obj name = (if obj = JNull \<or> obj = JUndefined then JUndefined else get_prop obj name)"

text \<open>\<^verbatim>\<open>v1 || v2 || ... || d\<close>: the first truthy operand, or the last one.\<close>

fun or_else :: "jsval list \<Rightarrow> jsval \<Rightarrow> jsval" where
  "or_else [] d = d"
| "or_else (v # vs) d = (if truthy v then v else or_else vs d)"

text \<open>The records \<^verbatim>\<open>{ headline, dateRaw, date }\<close> that a refresh cycle works on.\<close>

record item =
  item_headline :: string
  dateRaw :: jsval
  item_date :: string

text \<open>
  What the program takes from the JavaScript engine and the process it runs in, and
  the source does not determine:
  \<^item> \<open>local_tza t\<close>, the offset in milliseconds of local time from UTC at the time
    value \<open>t\<close> (the time zone of the process);
  \<^item> \<open>date_parse_other s\<close>, the result of \<^verbatim>\<open>Date.parse\<close> on a string outside the
    UTC date-time form modelled below (the language leaves other forms to the
    implementation); \<open>None\<close> is \<^verbatim>\<open>NaN\<close>;
  \<^item> \<open>number_to_string\<close>, the decimal text of a finite number;
  \<^item> \<open>json_parse\<close>, \<^verbatim>\<open>JSON.parse\<close>, \<open>None\<close> where it throws;
  \<^item> \<open>sort_inconsistent\<close>, the order \<^verbatim>\<open>Array.prototype.sort\<close> leaves an array in
    when the comparator is not consistent (implementation-defined).
\<close>

record runtime =
  local_tza :: "int \<Rightarrow> int"
  date_parse_other :: "string \<Rightarrow> int option"
  number_to_string :: "rat \<Rightarrow> string"
  json_parse :: "string \<Rightarrow> jsval option"
  sort_inconsistent :: "item list \<Rightarrow> item list"

text \<open>
  \<^verbatim>\<open>String(v)\<close>. An array is the texts of its elements joined by commas, with
  \<^verbatim>\<open>null\<close> and \<^verbatim>\<open>undefined\<close> as the empty text. A parsed object has no callable
  \<^verbatim>\<open>toString\<close> or \<^verbatim>\<open>valueOf\<close> of its own: it converts through
  \<^verbatim>\<open>Object.prototype\<close> to \<^verbatim>\<open>[object Object]\<close>, unless an own property
  \<^verbatim>\<open>toString\<close> hides the inherited method, and then the conversion throws.
\<close>

fun ToString :: "runtime \<Rightarrow> jsval \<Rightarrow> error + string"
  and join :: "runtime \<Rightarrow> jsval list \<Rightarrow> error + string" where
  "ToString rt JUndefined = Inr ''undefined''"
| "ToString rt JNull = Inr ''null''"
| "ToString rt (JBool b) = Inr (if b then ''true'' else ''false'')"
| "ToString rt (JNum r) = Inr (number_to_string rt r)"
| "ToString rt JInf = Inr ''Infinity''"
| "ToString rt JNegInf = Inr ''-Infinity''"
| "ToString rt (JStr s) = Inr s"
| "ToString rt (JArr vs) = join rt vs"
| "ToString rt (JObj kvs) =
     (if map_of kvs ''toString'' = None then Inr ''[object Object]'' else Inl TypeError)"
| "join rt [] = Inr []"
| "join rt (v # vs) =
     (case (if v = JNull \<or> v = JUndefined then Inr [] else ToString rt v) of
        Inl e \<Rightarrow> Inl e
      | Inr s \<Rightarrow>
          (if vs = [] then Inr s
           else (case join rt vs of Inl e \<Rightarrow> Inl e | Inr t \<Rightarrow> Inr (s @ '','' @ t))))"

section \<open>Dates\<close>

text \<open>
  A \<^verbatim>\<open>Date\<close> is its time value: milliseconds since 1970-01-01T00:00:00Z as an
  integer, or \<open>None\<close> for the invalid date (\<^verbatim>\<open>NaN\<close>). The day and time
  arithmetic is the language's: \<^verbatim>\<open>Day\<close>, \<^verbatim>\<open>DayFromYear\<close>, \<^verbatim>\<open>MakeDay\<close>,
  \<^verbatim>\<open>MakeTime\<close>, \<^verbatim>\<open>MakeDate\<close>, \<^verbatim>\<open>TimeClip\<close>.
\<close>

definition msPerDay :: int where
  "msPerDay = 86400000"

definition Day :: "int \<Rightarrow> int" where
  "Day t = t div msPerDay"

definition DayFromYear :: "int \<Rightarrow> int" where
  "DayFromYear y = 365 * (y - 1970) + (y - 1969) div 4 - (y - 1901) div 100 + (y - 1601) div 400"

definition InLeapYear :: "int \<Rightarrow> bool" where
  "InLeapYear y = (y mod 4 = 0 \<and> (y mod 100 \<noteq> 0 \<or> y mod 400 = 0))"

text \<open>The first day of month \<open>m\<close> (0 to 11) within its year.\<close>

definition month_start :: "int \<Rightarrow> bool \<Rightarrow> int" where
  "month_start m leap =
     [0, 31, 59, 90, 120, 151, 181, 212, 243, 273, 304, 334] ! nat m
       + (if leap \<and> 2 \<le> m then 1 else 0)"

definition MakeDay :: "int \<Rightarrow> int \<Rightarrow> int \<Rightarrow> int" where
  "MakeDay year month dt = DayFromYear year + month_start month (InLeapYear year) + dt - 1"

definition MakeTime :: "int \<Rightarrow> int \<Rightarrow> int \<Rightarrow> int \<Rightarrow> int" where
  "MakeTime hour minute sec ms = hour * 3600000 + minute * 60000 + sec * 1000 + ms"

definition MakeDate :: "int \<Rightarrow> int \<Rightarrow> int" where
  "MakeDate day time = day * msPerDay + time"

text \<open>
  \<^verbatim>\<open>new Date(number)\<close>: invalid beyond 8.64e15 milliseconds either side of the
  epoch, truncated towards zero otherwise.
\<close>

definition TimeClip :: "rat \<Rightarrow> int option" where
  "TimeClip r = (if 8640000000000000 < \<bar>r\<bar> then None
                 else Some (if 0 \<le> r then \<lfloor>r\<rfloor> else \<lceil>r\<rceil>))"

definition is_digit :: "char \<Rightarrow> bool" where
  "is_digit c = (c \<in> set ''0123456789'')"

definition digit_val :: "char \<Rightarrow> int" where
  "digit_val c = int (of_char c) - 48"

definition number_of :: "string \<Rightarrow> int" where
  "number_of ds = foldl (\<lambda>n c. 10 * n + digit_val c) 0 ds"

text \<open>\<^verbatim>\<open>s.slice(a, b)\<close> for \<open>a \<le> b\<close>\<close>

definition slice :: "nat \<Rightarrow> nat \<Rightarrow> string \<Rightarrow> string" where
  "slice a b s = take (b - a) (drop a s)"

text \<open>
  \<^verbatim>\<open>Date.parse\<close> on the forms \<^verbatim>\<open>YYYY-MM-DDTHH:mm:ssZ\<close> and
  \<^verbatim>\<open>YYYY-MM-DDTHH:mm:ss.sssZ\<close> of the language's date-time string format. The
  outer \<open>None\<close> says that the string has neither form; \<open>Some None\<close> that it has
  one with a field out of bounds, which is \<^verbatim>\<open>NaN\<close>. A day up to 31 is in bounds in
  every month and counts on from the first of the month, and hour 24 is the end of
  the day.
\<close>

definition iso_utc_parse :: "string \<Rightarrow> int option option" where
  "iso_utc_parse s =
     (if (length s = 20 \<or> length s = 24)
         \<and> list_all is_digit (slice 0 4 s) \<and> slice 4 5 s = ''-''
         \<and> list_all is_digit (slice 5 7 s) \<and> slice 7 8 s = ''-''
         \<and> list_all is_digit (slice 8 10 s) \<and> slice 10 11 s = ''T''
         \<and> list_all is_digit (slice 11 13 s) \<and> slice 13 14 s = '':''
         \<and> list_all is_digit (slice 14 16 s) \<and> slice 16 17 s = '':''
         \<and> list_all is_digit (slice 17 19 s)
         \<and> (if length s = 20 then slice 19 20 s = ''Z''
             else slice 19 20 s = ''.'' \<and> list_all is_digit (slice 20 23 s) \<and> slice 23 24 s = ''Z'')
      then
        Some (let year = number_of (slice 0 4 s); month = number_of (slice 5 7 s);
                  day = number_of (slice 8 10 s); hour = number_of (slice 11 13 s);
                  minute = number_of (slice 14 16 s); sec = number_of (slice 17 19 s);
                  ms = (if length s = 20 then 0 else number_of (slice 20 23 s))
              in if 1 \<le> month \<and> month \<le> 12 \<and> 1 \<le> day \<and> day \<le> 31
                    \<and> (hour \<le> 23 \<and> minute \<le> 59 \<and> sec \<le> 59
                        \<or> hour = 24 \<and> minute = 0 \<and> sec = 0 \<and> ms = 0)
                 then Some (MakeDate (MakeDay year (month - 1) day) (MakeTime hour minute sec ms))
                 else None)
      else None)"

definition Date_parse :: "runtime \<Rightarrow> string \<Rightarrow> int option" where
  "Date_parse rt s = (case iso_utc_parse s of Some r \<Rightarrow> r | None \<Rightarrow> date_parse_other rt s)"

text \<open>
  The time value of \<^verbatim>\<open>new Date(v)\<close>: a string is parsed, any other primitive is
  converted to a number, and an array or object is first converted to its primitive
  value, which for a parsed value is its text, or throws as \<open>ToString\<close> does.
\<close>

fun time_value :: "runtime \<Rightarrow> jsval \<Rightarrow> error + int option" where
  "time_value rt (JStr s) = Inr (Date_parse rt s)"
| "time_value rt (JNum r) = Inr (TimeClip r)"
| "time_value rt JInf = Inr None"
| "time_value rt JNegInf = Inr None"
| "time_value rt (JBool b) = Inr (Some (if b then 1 else 0))"
| "time_value rt JNull = Inr (Some 0)"
| "time_value rt JUndefined = Inr None"
| "time_value rt v = (case ToString rt v of Inl e \<Rightarrow> Inl e | Inr s \<Rightarrow> Inr (Date_parse rt s))"

text \<open>
  Year, month (1 to 12) and day of the month of a day number, in the proleptic
  Gregorian calendar. The days are counted from 0000-03-01 and split into cycles of
  400 years, centuries, cycles of 4 years and years; \<open>march_day\<close> is the day within
  the year that starts on the first of March, \<open>march_year\<close> that year.
\<close>

definition march_day :: "int \<Rightarrow> int" where
  "march_day days =
     (let doe = (days + 719468) mod 146097;
          r1 = doe - min 3 (doe div 36524) * 36524;
          r2 = r1 mod 1461
      in r2 - min 3 (r2 div 365) * 365)"

definition march_year :: "int \<Rightarrow> int" where
  "march_year days =
     (let z = days + 719468;
          doe = z mod 146097;
          c = min 3 (doe div 36524);
          r1 = doe - c * 36524;
          r2 = r1 mod 1461
      in 400 * (z div 146097) + 100 * c + 4 * (r1 div 1461) + min 3 (r2 div 365))"

definition civil_from_days :: "int \<Rightarrow> int \<times> int \<times> int" where
  "civil_from_days days =
     (let doy = march_day days;
          y = march_year days;
          mp = (5 * doy + 2) div 153;
          d = doy - (153 * mp + 2) div 5 + 1;
          m = (if mp < 10 then mp + 3 else mp - 9)
      in (if m \<le> 2 then y + 1 else y, m, d))"

text \<open>The getters of \<^verbatim>\<open>Date\<close> read the local time.\<close>

definition LocalTime :: "runtime \<Rightarrow> int \<Rightarrow> int" where
  "LocalTime rt t = t + local_tza rt t"

definition getFullYear :: "runtime \<Rightarrow> int \<Rightarrow> int" where
  "getFullYear rt t = fst (civil_from_days (Day (LocalTime rt t)))"

definition getMonth :: "runtime \<Rightarrow> int \<Rightarrow> int" where
  "getMonth rt t = fst (snd (civil_from_days (Day (LocalTime rt t)))) - 1"

definition getDate :: "runtime \<Rightarrow> int \<Rightarrow> int" where
  "getDate rt t = snd (snd (civil_from_days (Day (LocalTime rt t))))"

definition getHours :: "runtime \<Rightarrow> int \<Rightarrow> int" where
  "getHours rt t = (LocalTime rt t div 3600000) mod 24"

definition getMinutes :: "runtime \<Rightarrow> int \<Rightarrow> int" where
  "getMinutes rt t = (LocalTime rt t div 60000) mod 60"

text \<open>\<^verbatim>\<open>String(n)\<close> for an integer of the size of a date field.\<close>

fun show_nat :: "nat \<Rightarrow> string" where
  "show_nat n =
     (if n < 10 then [''0123456789'' ! n]
      else show_nat (n div 10) @ [''0123456789'' ! (n mod 10)])"

declare show_nat.simps [simp del]

definition show_int :: "int \<Rightarrow> string" where
  "show_int n = (if n < 0 then CHR ''-'' # show_nat (nat (- n)) else show_nat (nat n))"

text \<open>\<^verbatim>\<open>s.padStart(2, "0")\<close>\<close>

definition padStart2 :: "string \<Rightarrow> string" where
  "padStart2 s = replicate (2 - length s) CHR ''0'' @ s"

section \<open>app.js: the date formatter\<close>

text \<open>\<^verbatim>\<open>const pad = (n) => String(n).padStart(2, "0");\<close>\<close>

definition pad :: "int \<Rightarrow> string" where
  "pad n = padStart2 (show_int n)"

text \<open>
  \<^verbatim>\<open>function formatDateToDDMMYYYY_HHMM(d) {
    if (!d) return "";
    const dt = new Date(d);
    if (isNaN(dt)) return "";
    const day = pad(dt.getDate());
    const month = pad(dt.getMonth() + 1);
    const year = dt.getFullYear();
    const hours = pad(dt.getHours());
    const mins = pad(dt.getMinutes());
    return `${day}-${month}-${year} ${hours}:${mins}`; }\<close>
\<close>

definition formatDateToDDMMYYYY_HHMM :: "runtime \<Rightarrow> jsval \<Rightarrow> error + string" where
  "formatDateToDDMMYYYY_HHMM rt d =
     (if \<not> truthy d then Inr ''''
      else (case time_value rt d of
              Inl e \<Rightarrow> Inl e
            | Inr None \<Rightarrow> Inr ''''
            | Inr (Some dt) \<Rightarrow>
                (let day = pad (getDate rt dt);
                     month = pad (getMonth rt dt + 1);
                     year = getFullYear rt dt;
                     hours = pad (getHours rt dt);
                     mins = pad (getMinutes rt dt)
                 in Inr (day @ ''-'' @ month @ ''-'' @ show_int year @ '' '' @ hours @ '':'' @ mins))))"

text \<open>
  The shape \<^verbatim>\<open>DD-MM-Y HH:MM\<close>: two digits, a hyphen, two digits, a hyphen, a year
  in decimal (digits, after a minus sign for a year before 0), a space, two digits,
  a colon, two digits. With a year of four digits it is \<^verbatim>\<open>DD-MM-YYYY HH:MM\<close>.
\<close>

definition two_digits :: "string \<Rightarrow> bool" where
  "two_digits s = (length s = 2 \<and> list_all is_digit s)"

definition year_text :: "string \<Rightarrow> bool" where
  "year_text s =
     (case s of
        [] \<Rightarrow> False
      | c # cs \<Rightarrow> if c = CHR ''-'' then cs \<noteq> [] \<and> list_all is_digit cs else list_all is_digit (c # cs))"

definition dd_mm_y_hh_mm :: "string \<Rightarrow> bool" where
  "dd_mm_y_hh_mm s =
     (let n = length s
      in 13 \<le> n
         \<and> two_digits (slice 0 2 s) \<and> slice 2 3 s = ''-''
         \<and> two_digits (slice 3 5 s) \<and> slice 5 6 s = ''-''
         \<and> year_text (slice 6 (n - 6) s) \<and> slice (n - 6) (n - 5) s = '' ''
         \<and> two_digits (slice (n - 5) (n - 3) s) \<and> slice (n - 3) (n - 2) s = '':''
         \<and> two_digits (slice (n - 2) n s))"

definition dd_mm_yyyy_hh_mm :: "string \<Rightarrow> bool" where
  "dd_mm_yyyy_hh_mm s = (dd_mm_y_hh_mm s \<and> length s = 16 \<and> list_all is_digit (slice 6 10 s))"

section \<open>app.js: the normalizer\<close>

text \<open>
  The callback of \<^verbatim>\<open>list.map\<close> in \<^verbatim>\<open>parseAcesphereList\<close>:
  \<^verbatim>\<open>(item) => {
    const dateVal = item.DateTime || item.Date || item.TimeStamp || item.NewsDate
      || item.CreatedOn || item.NewsDateTime || null;
    const headline = item.Title || item.Headline || item.NewsHeading || item.Heading
      || item.NewsTitle || item.NewsDesc || "";
    return { headline: String(headline).trim(), dateRaw: dateVal,
             date: formatDateToDDMMYYYY_HHMM(dateVal) }; }\<close>
  Reading a property of \<^verbatim>\<open>null\<close> throws.
\<close>

definition dateVal_of :: "jsval \<Rightarrow> jsval" where
  "dateVal_of it =
     or_else [get_prop it ''DateTime'', get_prop it ''Date'', get_prop it ''TimeStamp'',
              get_prop it ''NewsDate'', get_prop it ''CreatedOn'', get_prop it ''NewsDateTime''] JNull"

definition headline_of :: "jsval \<Rightarrow> jsval" where
  "headline_of it =
     or_else [get_prop it ''Title'', get_prop it ''Headline'', get_prop it ''NewsHeading'',
              get_prop it ''Heading'', get_prop it ''NewsTitle'', get_prop it ''NewsDesc''] (JStr [])"

definition normalize_item :: "runtime \<Rightarrow> jsval \<Rightarrow> error + item" where
  "normalize_item rt it =
     (if it = JNull \<or> it = JUndefined then Inl TypeError
      else
        (let dateVal = dateVal_of it;
             headline = headline_of it
         in (case ToString rt headline of
               Inl e \<Rightarrow> Inl e
             | Inr h \<Rightarrow>
                 (case formatDateToDDMMYYYY_HHMM rt dateVal of
                    Inl e \<Rightarrow> Inl e
                  | Inr d \<Rightarrow> Inr \<lparr>item_headline = trim h, dateRaw = dateVal, item_date = d\<rparr>))))"

text \<open>\<^verbatim>\<open>list.map(...)\<close>, which the first throwing element ends.\<close>

fun map_items :: "runtime \<Rightarrow> jsval list \<Rightarrow> error + item list" where
  "map_items rt [] = Inr []"
| "map_items rt (it # its) =
     (case normalize_item rt it of
        Inl e \<Rightarrow> Inl e
      | Inr x \<Rightarrow> (case map_items rt its of Inl e \<Rightarrow> Inl e | Inr xs \<Rightarrow> Inr (x # xs)))"

text \<open>
  \<^verbatim>\<open>function parseAcesphereList(obj) {
    const list = obj?.NewsList || obj?.ListNewsBean || obj?.newsList || obj?.Data
      || obj?.News || obj;
    if (!Array.isArray(list)) return [];
    const out = list.map(...);
    return out.filter((x) => x.headline && x.headline.length > 0); }\<close>
\<close>

definition list_of :: "jsval \<Rightarrow> jsval" where
  "list_of obj =
     or_else [opt_prop obj ''NewsList'', opt_prop obj ''ListNewsBean'', opt_prop obj ''newsList'',
              opt_prop obj ''Data'', opt_prop obj ''News''] obj"

definition parseAcesphereList :: "runtime \<Rightarrow> jsval \<Rightarrow> error + item list" where
  "parseAcesphereList rt obj =
     (case list_of obj of
        JArr list \<Rightarrow>
          (case map_items rt list of
             Inl e \<Rightarrow> Inl e
           | Inr out \<Rightarrow> Inr (filter (\<lambda>x. item_headline x \<noteq> [] \<and> 0 < length (item_headline x)) out))
      | _ \<Rightarrow> Inr [])"

section \<open>app.js: the fetchers\<close>

text \<open>
  The outcome of \<^verbatim>\<open>await fetch(url, options)\<close> followed by \<^verbatim>\<open>await resp.text()\<close>
  is an input of the model: the promise rejects, or there is a body.
\<close>

datatype response = Rejected | Body string

text \<open>
  \<^verbatim>\<open>async function fetchAcesphere(url) {
    const resp = await fetch(url, options);
    const text = await resp.text();
    if (text.trim().startsWith("<")) { throw new Error("ACESPHERE returned HTML"); }
    const data = JSON.parse(text);
    return data; }\<close>
\<close>

definition fetchAcesphere :: "runtime \<Rightarrow> response \<Rightarrow> error + jsval" where
  "fetchAcesphere rt resp =
     (case resp of
        Rejected \<Rightarrow> Inl FetchFailed
      | Body text \<Rightarrow>
          (if startsWith (trim text) ''<'' then Inl ReturnedHTML
           else (case json_parse rt text of None \<Rightarrow> Inl SyntaxError | Some data \<Rightarrow> Inr data)))"

subsection \<open>The two regular expressions\<close>

text \<open>
  A backtracking matcher gives, for a pattern and a text, the ways of matching in
  the order it tries them; the match it finds is the first. Under the \<^verbatim>\<open>i\<close> flag
  two characters are compared after \<^verbatim>\<open>toUpperCase\<close>; the patterns name ASCII
  characters only, and such a character is matched by itself and, for a letter, by
  its other case.
\<close>

definition toUpper :: "char \<Rightarrow> char" where
  "toUpper c = (let n = of_char c :: nat in if 97 \<le> n \<and> n \<le> 122 then char_of (n - 32) else c)"

text \<open>The rest of the text after a literal, if the text starts with it.\<close>

fun lit_ci :: "string \<Rightarrow> string \<Rightarrow> string option" where
  "lit_ci [] s = Some s"
| "lit_ci (p # ps) [] = None"
| "lit_ci (p # ps) (c # cs) = (if toUpper c = toUpper p then lit_ci ps cs else None)"

text \<open>\<^verbatim>\<open>[class]*\<close>, greedy: the rests after each possible run, the longest run first.\<close>

fun greedy :: "(char \<Rightarrow> bool) \<Rightarrow> string \<Rightarrow> string list" where
  "greedy P [] = [[]]"
| "greedy P (c # cs) = (if P c then greedy P cs @ [c # cs] else [c # cs])"

text \<open>\<^verbatim>\<open>[class]+\<close>, greedy.\<close>

fun greedy1 :: "(char \<Rightarrow> bool) \<Rightarrow> string \<Rightarrow> string list" where
  "greedy1 P [] = []"
| "greedy1 P (c # cs) = (if P c then greedy P cs else [])"

text \<open>\<^verbatim>\<open>([class]*?)\<close>, lazy: the run captured and the rest, the shortest run first.\<close>

fun lazy :: "(char \<Rightarrow> bool) \<Rightarrow> string \<Rightarrow> (string \<times> string) list" where
  "lazy P [] = [([], [])]"
| "lazy P (c # cs) = ([], c # cs) # (if P c then map (\<lambda>(a, r). (c # a, r)) (lazy P cs) else [])"

text \<open>\<^verbatim>\<open>["']\<close>, \<^verbatim>\<open>[^>]\<close>, \<^verbatim>\<open>[^"']\<close>, and \<^verbatim>\<open>.\<close> (any character but a line terminator).\<close>

definition quote :: "string \<Rightarrow> string option" where
  "quote s = (case s of [] \<Rightarrow> None | c # cs \<Rightarrow> if c = CHR 0x22 \<or> c = CHR 0x27 then Some cs else None)"

definition not_gt :: "char \<Rightarrow> bool" where
  "not_gt c = (c \<noteq> CHR ''>'')"

definition not_quote :: "char \<Rightarrow> bool" where
  "not_quote c = (c \<noteq> CHR 0x22 \<and> c \<noteq> CHR 0x27)"

definition dot :: "char \<Rightarrow> bool" where
  "dot c = (c \<noteq> CHR 0x0A \<and> c \<noteq> CHR 0x0D)"

text \<open>
  \<^verbatim>\<open>/<a[^>]*href=["'][^"']*["'][^>]*>(.*?)<\/a>/gi\<close> at the start of a text: the
  captured group and the rest after the match, for every way of matching.
\<close>

definition anchor_at :: "string \<Rightarrow> (string \<times> string) list" where
  "anchor_at s =
     (case lit_ci ''<a'' s of None \<Rightarrow> [] | Some s1 \<Rightarrow>
        concat (map (\<lambda>s2.
          (case lit_ci ''href='' s2 of None \<Rightarrow> [] | Some s3 \<Rightarrow>
          (case quote s3 of None \<Rightarrow> [] | Some s4 \<Rightarrow>
             concat (map (\<lambda>s5.
               (case quote s5 of None \<Rightarrow> [] | Some s6 \<Rightarrow>
                  concat (map (\<lambda>s7.
                    (case lit_ci ''>'' s7 of None \<Rightarrow> [] | Some s8 \<Rightarrow>
                       concat (map (\<lambda>(cap, s9).
                         (case lit_ci ''</a>'' s9 of None \<Rightarrow> [] | Some rest \<Rightarrow> [(cap, rest)]))
                         (lazy dot s8))))
                    (greedy not_gt s6))))
               (greedy not_quote s4)))))
          (greedy not_gt s1)))"

text \<open>
  \<^verbatim>\<open>[...html.matchAll(re)]\<close>, as the list of the groups \<^verbatim>\<open>m[1]\<close>: the text is
  scanned from the left, and after a match the scan goes on behind it. The counter is
  the number of characters of the last match still to be passed.
\<close>

fun matchAll_from :: "nat \<Rightarrow> string \<Rightarrow> string list" where
  "matchAll_from skip [] = []"
| "matchAll_from skip (c # cs) =
     (if 0 < skip then matchAll_from (skip - 1) cs
      else (case anchor_at (c # cs) of
              [] \<Rightarrow> matchAll_from 0 cs
            | (cap, rest) # _ \<Rightarrow> cap # matchAll_from (length cs - length rest) cs))"

text \<open>\<^verbatim>\<open>/<[^>]+>/g\<close> at the start of a text: the rests after a match.\<close>

definition tag_at :: "string \<Rightarrow> string list" where
  "tag_at s =
     (case lit_ci ''<'' s of None \<Rightarrow> [] | Some s1 \<Rightarrow>
        concat (map (\<lambda>s2. case lit_ci ''>'' s2 of None \<Rightarrow> [] | Some rest \<Rightarrow> [rest])
                  (greedy1 not_gt s1)))"

text \<open>\<^verbatim>\<open>s.replace(/<[^>]+>/g, "")\<close>\<close>

fun strip_tags_from :: "nat \<Rightarrow> string \<Rightarrow> string" where
  "strip_tags_from skip [] = []"
| "strip_tags_from skip (c # cs) =
     (if 0 < skip then strip_tags_from (skip - 1) cs
      else (case tag_at (c # cs) of
              [] \<Rightarrow> c # strip_tags_from 0 cs
            | rest # _ \<Rightarrow> strip_tags_from (length cs - length rest) cs))"

subsection \<open>The fallback fetcher\<close>

text \<open>The objects \<^verbatim>\<open>{ headline: text, date: null }\<close> of the fallback.\<close>

record nb_headline =
  nb_headline :: string
  nb_date :: jsval

text \<open>
  \<^verbatim>\<open>for (const m of matches) {
    const text = m[1].replace(/<[^>]+>/g, "").trim();
    if (text && text.length > 5) { headlines.push({ headline: text, date: null }); }
    if (headlines.length >= 10) break;
  }\<close>
\<close>

fun collect :: "string list \<Rightarrow> nb_headline list \<Rightarrow> nb_headline list" where
  "collect [] headlines = headlines"
| "collect (m # ms) headlines =
     (let text = trim (strip_tags_from 0 m);
          headlines' = (if text \<noteq> [] \<and> 5 < length text
                        then headlines @ [\<lparr>nb_headline = text, nb_date = JNull\<rparr>]
                        else headlines)
      in if 10 \<le> length headlines' then headlines' else collect ms headlines')"

text \<open>
  \<^verbatim>\<open>async function fetchNirmalbangHeadlines() {
    try { ... const html = await resp.text();
      const matches = [...html.matchAll(...)];
      const headlines = []; for (...) {...}
      return headlines;
    } catch (e) { console.warn(...); return []; } }\<close>
\<close>

definition fetchNirmalbangHeadlines :: "response \<Rightarrow> nb_headline list" where
  "fetchNirmalbangHeadlines resp =
     (case resp of Rejected \<Rightarrow> [] | Body html \<Rightarrow> collect (matchAll_from 0 html) [])"

section \<open>app.js: the refresh cycle\<close>

text \<open>The results of a list of computations, up to the first that throws.\<close>

fun sequence :: "(error + 'a) list \<Rightarrow> error + 'a list" where
  "sequence [] = Inr []"
| "sequence (r # rs) =
     (case r of
        Inl e \<Rightarrow> Inl e
      | Inr x \<Rightarrow> (case sequence rs of Inl e \<Rightarrow> Inl e | Inr xs \<Rightarrow> Inr (x # xs)))"

text \<open>
  \<^verbatim>\<open>arr.sort((a, b) => new Date(b.dateRaw) - new Date(a.dateRaw))\<close>.
  The comparator is not called on an array of fewer than two elements. Otherwise it
  is called on every element, and throws where \<^verbatim>\<open>new Date\<close> does. The difference of
  two valid dates orders the later one first; a difference with an invalid date is
  \<^verbatim>\<open>NaN\<close>, which the sort reads as equal. The sort is stable. So where every date
  is valid the array is sorted by time, latest first, elements of equal time in their
  order; where the comparator calls everything equal the order stays; and in the
  remaining case, valid and invalid dates with two valid times that differ, the
  comparator is not consistent and the order is the implementation's.
\<close>

definition time_key :: "runtime \<Rightarrow> item \<Rightarrow> int" where
  "time_key rt r = (case time_value rt (dateRaw r) of Inr (Some t) \<Rightarrow> t | _ \<Rightarrow> 0)"

definition array_sort :: "runtime \<Rightarrow> item list \<Rightarrow> error + item list" where
  "array_sort rt arr =
     (if length arr < 2 then Inr arr
      else (case sequence (map (\<lambda>r. time_value rt (dateRaw r)) arr) of
              Inl e \<Rightarrow> Inl e
            | Inr tvs \<Rightarrow>
                (if None \<notin> set tvs then Inr (sort_key (\<lambda>r. - time_key rt r) arr)
                 else if length (remdups (filter (\<lambda>t. t \<noteq> None) tvs)) \<le> 1 then Inr arr
                 else Inr (sort_inconsistent rt arr))))"

text \<open>
  \<^verbatim>\<open>const sortByDateDesc = (arr) => {
    const withDate = arr.filter((r) => r.dateRaw).sort((a, b) => ...);
    const withoutDate = arr.filter((r) => !r.dateRaw);
    return [...withDate, ...withoutDate]; };\<close>
\<close>

definition sortByDateDesc :: "runtime \<Rightarrow> item list \<Rightarrow> error + item list" where
  "sortByDateDesc rt arr =
     (case array_sort rt (filter (\<lambda>r. truthy (dateRaw r)) arr) of
        Inl e \<Rightarrow> Inl e
      | Inr withDate \<Rightarrow> Inr (withDate @ filter (\<lambda>r. \<not> truthy (dateRaw r)) arr))"

text \<open>
  \<^verbatim>\<open>let cached = { derivative: [], general: [], lastUpdated: null };\<close>
\<close>

record cached =
  derivative :: "entry list"
  general :: "entry list"
  lastUpdated :: "string option"

definition cached_init :: cached where
  "cached_init = \<lparr>derivative = [], general = [], lastUpdated = None\<rparr>"

text \<open>
  What one cycle meets: the outcome of the request to each of the three URLs, and
  \<^verbatim>\<open>new Date().toISOString()\<close> at its end.
\<close>

record cycle =
  derivative_response :: response
  general_response :: response
  nirmalbang_response :: response
  now_iso :: string

text \<open>
  \<^verbatim>\<open>let derivativeItems = [];
  try { const derJson = await fetchAcesphere(NEWS_URLS.derivative);
        derivativeItems = parseAcesphereList(derJson);
  } catch (e) { console.warn(...); derivativeItems = []; }\<close>
  First the \<^verbatim>\<open>try\<close> block, then the statement.
\<close>

definition acesphere_derivative :: "runtime \<Rightarrow> cycle \<Rightarrow> error + item list" where
  "acesphere_derivative rt w =
     (case fetchAcesphere rt (derivative_response w) of
        Inl e \<Rightarrow> Inl e
      | Inr derJson \<Rightarrow> parseAcesphereList rt derJson)"

definition fetch_derivative :: "runtime \<Rightarrow> cycle \<Rightarrow> item list" where
  "fetch_derivative rt w = (case acesphere_derivative rt w of Inl e \<Rightarrow> [] | Inr xs \<Rightarrow> xs)"

text \<open>
  The \<^verbatim>\<open>try\<close> block of the general category:
  \<^verbatim>\<open>const genJson = await fetchAcesphere(NEWS_URLS.general);
  generalItems = parseAcesphereList(genJson);\<close>
\<close>

definition acesphere_general :: "runtime \<Rightarrow> cycle \<Rightarrow> error + item list" where
  "acesphere_general rt w =
     (case fetchAcesphere rt (general_response w) of
        Inl e \<Rightarrow> Inl e
      | Inr genJson \<Rightarrow> parseAcesphereList rt genJson)"

text \<open>
  Its \<^verbatim>\<open>catch\<close> block:
  \<^verbatim>\<open>const nb = await fetchNirmalbangHeadlines();
  generalItems = nb.map((n) => ({ headline: n.headline, dateRaw: n.date || null,
    date: n.date ? formatDateToDDMMYYYY_HHMM(n.date) : "" }));\<close>
  What is thrown in a \<^verbatim>\<open>catch\<close> block leaves the enclosing \<^verbatim>\<open>try\<close>.
\<close>

definition nb_item :: "runtime \<Rightarrow> nb_headline \<Rightarrow> error + item" where
  "nb_item rt n =
     (case (if truthy (nb_date n) then formatDateToDDMMYYYY_HHMM rt (nb_date n) else Inr '''') of
        Inl e \<Rightarrow> Inl e
      | Inr d \<Rightarrow> Inr \<lparr>item_headline = nb_headline n, dateRaw = or_else [nb_date n] JNull, item_date = d\<rparr>)"

definition fallback_general :: "runtime \<Rightarrow> cycle \<Rightarrow> error + item list" where
  "fallback_general rt w =
     sequence (map (nb_item rt) (fetchNirmalbangHeadlines (nirmalbang_response w)))"

definition fetch_general :: "runtime \<Rightarrow> cycle \<Rightarrow> error + item list" where
  "fetch_general rt w =
     (case acesphere_general rt w of
        Inr xs \<Rightarrow> Inr xs
      | Inl e \<Rightarrow> fallback_general rt w)"

text \<open>\<^verbatim>\<open>(i) => ({ date: i.date || "", headline: i.headline })\<close>\<close>

definition final_entry :: "item \<Rightarrow> entry" where
  "final_entry i = \<lparr>date = (if item_date i \<noteq> [] then item_date i else ''''), headline = item_headline i\<rparr>"

text \<open>
  \<^verbatim>\<open>async function refreshNewsNow() {
    try {
      ... derivativeItems ... generalItems ...
      derivativeItems = sortByDateDesc(derivativeItems).slice(0, 4);
      generalItems = sortByDateDesc(generalItems).slice(0, 6);
      cached.derivative = derivativeItems.map(...);
      cached.general = generalItems.map(...);
      cached.lastUpdated = new Date().toISOString();
    } catch (err) { console.error("Error refreshing news:", err); } }\<close>
  The cache before the cycle is an argument, the cache after it the result. Every
  statement that can throw stands before the first assignment to \<^verbatim>\<open>cached\<close>, so
  the outer \<^verbatim>\<open>catch\<close> leaves the cache as it was.
\<close>

definition refreshNewsNow :: "runtime \<Rightarrow> cycle \<Rightarrow> cached \<Rightarrow> cached" where
  "refreshNewsNow rt w c =
     (let derivativeItems = fetch_derivative rt w in
      case fetch_general rt w of
        Inl err \<Rightarrow> c
      | Inr generalItems \<Rightarrow>
          (case sortByDateDesc rt derivativeItems of
             Inl err \<Rightarrow> c
           | Inr derivativeSorted \<Rightarrow>
               (case sortByDateDesc rt generalItems of
                  Inl err \<Rightarrow> c
                | Inr generalSorted \<Rightarrow>
                    \<lparr>derivative = map final_entry (take 4 derivativeSorted),
                     general = map final_entry (take 6 generalSorted),
                     lastUpdated = Some (now_iso w)\<rparr>)))"

text \<open>
  What a cycle does with the parsed payload of a category whose cap is \<open>cap\<close>:
  \<^verbatim>\<open>parseAcesphereList\<close>, \<^verbatim>\<open>sortByDateDesc(...).slice(0, cap)\<close>, and the final \<^verbatim>\<open>map\<close>.
\<close>

definition normalize_sort_cap :: "runtime \<Rightarrow> nat \<Rightarrow> jsval \<Rightarrow> error + entry list" where
  "normalize_sort_cap rt cap obj =
     (case parseAcesphereList rt obj of
        Inl e \<Rightarrow> Inl e
      | Inr items \<Rightarrow>
          (case sortByDateDesc rt items of
             Inl e \<Rightarrow> Inl e
           | Inr ordered \<Rightarrow> Inr (map final_entry (take cap ordered))))"

text \<open>A record can be compared by the sort: its raw date is falsy, or has a time value.\<close>

definition comparable :: "runtime \<Rightarrow> item \<Rightarrow> bool" where
  "comparable rt x = (truthy (dateRaw x) \<longrightarrow> (\<exists>tv. time_value rt (dateRaw x) = Inr tv))"



section \<open>app.js: the accessor, on a store with references\<close>

text \<open>
  \<^verbatim>\<open>function getCachedNews() {
    return { derivative: cached.derivative, general: cached.general,
             lastUpdated: cached.lastUpdated }; }\<close>
  An array and an object are references in JavaScript, and what a caller can do to
  the cache through the value returned depends on which references that value
  shares with \<^verbatim>\<open>cached\<close>. Here the store is explicit: arrays hold references to
  \<^verbatim>\<open>{ date, headline }\<close> objects, an object of the accessor's shape holds the
  references of its two arrays, and \<open>next_ref\<close> is the first address not in use.
\<close>

type_synonym ref = nat

record news_object =
  derivative_ref :: ref
  general_ref :: ref
  lastUpdated_val :: "string option"

record store =
  cached_obj :: news_object
  arrays :: "ref \<Rightarrow> ref list option"
  entries :: "ref \<Rightarrow> entry option"
  returned :: "ref \<Rightarrow> news_object option"
  next_ref :: ref

text \<open>The store when the module is loaded: \<^verbatim>\<open>cached\<close> with its two empty arrays.\<close>

definition store_init :: store where
  "store_init =
     \<lparr>cached_obj = \<lparr>derivative_ref = 0, general_ref = 1, lastUpdated_val = None\<rparr>,
      arrays = [0 \<mapsto> [], 1 \<mapsto> []],
      entries = Map.empty,
      returned = Map.empty,
      next_ref = 2\<rparr>"

text \<open>
  The end of a cycle on the store: each \<^verbatim>\<open>map\<close> makes a new array of new objects,
  and the three fields of \<^verbatim>\<open>cached\<close> are assigned.
\<close>

fun alloc_entries :: "entry list \<Rightarrow> store \<Rightarrow> ref list \<times> store" where
  "alloc_entries [] st = ([], st)"
| "alloc_entries (e # es) st =
     (case alloc_entries es (st\<lparr>entries := (entries st)(next_ref st \<mapsto> e),
                                next_ref := Suc (next_ref st)\<rparr>) of
        (rs, st') \<Rightarrow> (next_ref st # rs, st'))"

definition alloc_array :: "entry list \<Rightarrow> store \<Rightarrow> ref \<times> store" where
  "alloc_array es st =
     (case alloc_entries es st of
        (rs, st') \<Rightarrow>
          (next_ref st', st'\<lparr>arrays := (arrays st')(next_ref st' \<mapsto> rs),
                            next_ref := Suc (next_ref st')\<rparr>))"

definition assign_cached :: "cached \<Rightarrow> store \<Rightarrow> store" where
  "assign_cached c st =
     (case alloc_array (derivative c) st of
        (d, st1) \<Rightarrow>
          (case alloc_array (general c) st1 of
             (g, st2) \<Rightarrow>
               st2\<lparr>cached_obj := \<lparr>derivative_ref = d, general_ref = g,
                                   lastUpdated_val = lastUpdated c\<rparr>\<rparr>))"

text \<open>The accessor: a new object with the references and the value of \<^verbatim>\<open>cached\<close>.\<close>

definition getCachedNews :: "store \<Rightarrow> ref \<times> store" where
  "getCachedNews st =
     (next_ref st,
      st\<lparr>returned := (returned st)(next_ref st \<mapsto>
              \<lparr>derivative_ref = derivative_ref (cached_obj st),
               general_ref = general_ref (cached_obj st),
               lastUpdated_val = lastUpdated_val (cached_obj st)\<rparr>),
         next_ref := Suc (next_ref st)\<rparr>)"

text \<open>What an object of that shape shows to a reader who follows its references.\<close>

fun those_entries :: "store \<Rightarrow> ref list \<Rightarrow> entry list option" where
  "those_entries st [] = Some []"
| "those_entries st (r # rs) =
     (case entries st r of
        None \<Rightarrow> None
      | Some e \<Rightarrow> (case those_entries st rs of None \<Rightarrow> None | Some es \<Rightarrow> Some (e # es)))"

definition array_contents :: "store \<Rightarrow> ref \<Rightarrow> entry list option" where
  "array_contents st a = (case arrays st a of None \<Rightarrow> None | Some rs \<Rightarrow> those_entries st rs)"

definition contents :: "store \<Rightarrow> news_object \<Rightarrow> cached option" where
  "contents st ob =
     (case array_contents st (derivative_ref ob) of
        None \<Rightarrow> None
      | Some d \<Rightarrow>
          (case array_contents st (general_ref ob) of
             None \<Rightarrow> None
           | Some g \<Rightarrow> Some \<lparr>derivative = d, general = g, lastUpdated = lastUpdated_val ob\<rparr>))"

text \<open>A read: a call of the accessor, and what its result shows.\<close>

definition read_cache :: "store \<Rightarrow> cached option" where
  "read_cache st =
     (case getCachedNews st of
        (r, st') \<Rightarrow> (case returned st' r of None \<Rightarrow> None | Some ob \<Rightarrow> contents st' ob))"

text \<open>
  What a caller can do to the value \<^verbatim>\<open>v\<close> returned:
  \<^verbatim>\<open>v.general.push(e)\<close>, \<^verbatim>\<open>v.general[i].headline = s\<close>, \<^verbatim>\<open>v.general = []\<close>
  (the same for \<^verbatim>\<open>derivative\<close>), and \<^verbatim>\<open>v.lastUpdated = x\<close>. An assignment to an
  element that does not exist throws and changes nothing.
\<close>

datatype field = Derivative | General

fun field_ref :: "news_object \<Rightarrow> field \<Rightarrow> ref" where
  "field_ref ob Derivative = derivative_ref ob"
| "field_ref ob General = general_ref ob"

fun set_field_ref :: "news_object \<Rightarrow> field \<Rightarrow> ref \<Rightarrow> news_object" where
  "set_field_ref ob Derivative a = ob\<lparr>derivative_ref := a\<rparr>"
| "set_field_ref ob General a = ob\<lparr>general_ref := a\<rparr>"

datatype mutation =
    Push field entry
  | SetHeadline field nat string
  | AssignEmptyList field
  | AssignLastUpdated "string option"

fun mutate :: "ref \<Rightarrow> mutation \<Rightarrow> store \<Rightarrow> store" where
  "mutate r (Push f e) st =
     (case returned st r of
        None \<Rightarrow> st
      | Some ob \<Rightarrow>
          (case arrays st (field_ref ob f) of
             None \<Rightarrow> st
           | Some rs \<Rightarrow>
               st\<lparr>entries := (entries st)(next_ref st \<mapsto> e),
                  arrays := (arrays st)(field_ref ob f \<mapsto> rs @ [next_ref st]),
                  next_ref := Suc (next_ref st)\<rparr>))"
| "mutate r (SetHeadline f i s) st =
     (case returned st r of
        None \<Rightarrow> st
      | Some ob \<Rightarrow>
          (case arrays st (field_ref ob f) of
             None \<Rightarrow> st
           | Some rs \<Rightarrow>
               (if i < length rs
                then (case entries st (rs ! i) of
                        None \<Rightarrow> st
                      | Some e \<Rightarrow> st\<lparr>entries := (entries st)(rs ! i \<mapsto> e\<lparr>headline := s\<rparr>)\<rparr>)
                else st)))"
| "mutate r (AssignEmptyList f) st =
     (case returned st r of
        None \<Rightarrow> st
      | Some ob \<Rightarrow>
          st\<lparr>arrays := (arrays st)(next_ref st \<mapsto> []),
             returned := (returned st)(r \<mapsto> set_field_ref ob f (next_ref st)),
             next_ref := Suc (next_ref st)\<rparr>)"
| "mutate r (AssignLastUpdated v) st =
     (case returned st r of
        None \<Rightarrow> st
      | Some ob \<Rightarrow> st\<lparr>returned := (returned st)(r \<mapsto> ob\<lparr>lastUpdated_val := v\<rparr>)\<rparr>)"

text \<open>A read after a call of the accessor and one mutation of its result.\<close>

definition read_after_mutation :: "store \<Rightarrow> mutation \<Rightarrow> cached option" where
  "read_after_mutation st m = (case getCachedNews st of (r, st') \<Rightarrow> read_cache (mutate r m st'))"

text \<open>
  A store in which the two lists of the cache are different arrays that exist, and
  no reference in use is at or beyond \<open>next_ref\<close>: the store at load time is so,
  and so is the store after every cycle.
\<close>

definition store_ok :: "store \<Rightarrow> bool" where
  "store_ok st =
     (derivative_ref (cached_obj st) < next_ref st
      \<and> general_ref (cached_obj st) < next_ref st
      \<and> derivative_ref (cached_obj st) \<noteq> general_ref (cached_obj st)
      \<and> (case arrays st (derivative_ref (cached_obj st)) of
            None \<Rightarrow> False | Some rs \<Rightarrow> list_all (\<lambda>r. r < next_ref st) rs)
      \<and> (case arrays st (general_ref (cached_obj st)) of
            None \<Rightarrow> False | Some rs \<Rightarrow> list_all (\<lambda>r. r < next_ref st) rs))"

text \<open>The list of a category in a value of the cache.\<close>

fun field_list :: "cached \<Rightarrow> field \<Rightarrow> entry list" where
  "field_list c Derivative = derivative c"
| "field_list c General = general c"

section \<open>A runtime for examples\<close>

text \<open>
  A process whose local time is a fixed offset from UTC, with an engine that parses
  no date outside the modelled form, prints a number as its integer part, parses the
  bodies of a table and leaves an array in its order where the order is its choice.
\<close>

definition example_runtime :: "int \<Rightarrow> (string \<times> jsval) list \<Rightarrow> runtime" where
  "example_runtime tza bodies =
     \<lparr>local_tza = (\<lambda>t. tza),
      date_parse_other = (\<lambda>s. None),
      number_to_string = (\<lambda>r. show_int \<lfloor>r\<rfloor>),
      json_parse = map_of bodies,
      sort_inconsistent = (\<lambda>arr. arr)\<rparr>"

text \<open>The payload of the scenario \<^verbatim>\<open>{"NewsList":[{"Title":"A",...},{"Title":"B",...}]}\<close>, its text, and a cycle that receives it for the general category.\<close>

definition scenario_payload :: jsval where
  "scenario_payload =
     JObj [(''NewsList'',
            JArr [JObj [(''Title'', JStr ''A''), (''DateTime'', JStr ''2024-01-02T15:04:00Z'')],
                  JObj [(''Title'', JStr ''B''), (''DateTime'', JStr ''2024-01-03T09:00:00Z'')]])]"

definition scenario_body :: string where
  "scenario_body =
     ''{\"NewsList\":[{\"Title\":\"A\",\"DateTime\":\"2024-01-02T15:04:00Z\"},{\"Title\":\"B\",\"DateTime\":\"2024-01-03T09:00:00Z\"}]}''"

definition scenario_cycle :: cycle where
  "scenario_cycle =
     \<lparr>derivative_response = Rejected, general_response = Body scenario_body,
      nirmalbang_response = Rejected, now_iso = ''2024-01-03T10:00:00.000Z''\<rparr>"

text \<open>A cycle in which every strategy fails, and a cache from an earlier cycle.\<close>

definition failing_cycle :: cycle where
  "failing_cycle =
     \<lparr>derivative_response = Rejected, general_response = Body '' <!DOCTYPE html><html></html>'',
      nirmalbang_response = Rejected, now_iso = ''2024-01-03T10:00:00.000Z''\<rparr>"

definition earlier_cache :: cached where
  "earlier_cache =
     \<lparr>derivative = [],
      general = [\<lparr>date = ''03-01-2024 09:00'', headline = ''B''\<rparr>],
      lastUpdated = Some ''2024-01-03T09:30:00.000Z''\<rparr>"

text \<open>A cycle whose structured general response is a page of markup.\<close>

definition fallback_cycle :: cycle where
  "fallback_cycle =
     \<lparr>derivative_response = Rejected, general_response = Body '' <!DOCTYPE html><html></html>'',
      nirmalbang_response = Body ''<a id=n href=\"/n\"> <b>Sensex</b> up </a><a href='/'>Home</a>'',
      now_iso = ''2024-01-03T10:00:00.000Z''\<rparr>"

text \<open>A payload of seven dated records, out of order, and a cycle that receives it for both categories.\<close>

definition dated :: "string \<Rightarrow> rat \<Rightarrow> jsval" where
  "dated title ms = JObj [(''Headline'', JStr title), (''TimeStamp'', JNum ms)]"



text \<open>
  A payload of two records whose time stamps are both valid dates, one a day before
  the epoch and one the epoch itself, and a cycle that receives it for the general
  category.
\<close>

definition epoch_payload :: jsval where
  "epoch_payload = JArr [dated ''old'' (- 86400000), dated ''epoch'' 0]"



section \<open>Properties of server.js\<close>

lemma each_container_append:
  "each_container els news = news @ each_container els []"
proof (induction els arbitrary: news)
  case Nil
  show ?case by simp
next
  case (Cons el els)
  show ?case
    using Cons.IH [of "news @ [\<lparr>date = formatDate (trim (text_of (GrNewsDate el))),
                               headline = trim (text_of (GrNewsHead el))\<rparr>]"]
          Cons.IH [of news]
          Cons.IH [of "[\<lparr>date = formatDate (trim (text_of (GrNewsDate el))),
                               headline = trim (text_of (GrNewsHead el))\<rparr>]"]
    by (simp add: Let_def)
qed

lemma parseHtmlNews_Cons:
  "parseHtmlNews (el # els) =
     (if trim (text_of (GrNewsHead el)) \<noteq> [] \<and> trim (text_of (GrNewsDate el)) \<noteq> []
      then \<lparr>date = formatDate (trim (text_of (GrNewsDate el))),
            headline = trim (text_of (GrNewsHead el))\<rparr> # parseHtmlNews els
      else parseHtmlNews els)"
  unfolding parseHtmlNews_def
  using each_container_append [of els "[\<lparr>date = formatDate (trim (text_of (GrNewsDate el))),
                               headline = trim (text_of (GrNewsHead el))\<rparr>]"]
  by (simp add: Let_def)

lemma parseHtmlNews_Nil: "parseHtmlNews [] = []"
  by (simp add: parseHtmlNews_def)

lemma parseHtmlNews_filter_map:
  "parseHtmlNews html =
     map (\<lambda>el. \<lparr>date = formatDate (trim (text_of (GrNewsDate el))),
                headline = trim (text_of (GrNewsHead el))\<rparr>)
       (filter (\<lambda>el. trim (text_of (GrNewsHead el)) \<noteq> [] \<and> trim (text_of (GrNewsDate el)) \<noteq> [])
          html)"
proof (induction html)
  case Nil
  show ?case by (simp add: parseHtmlNews_Nil)
next
  case (Cons el els)
  then show ?case by (simp add: parseHtmlNews_Cons)
qed

text \<open>
  C10. For every document, the output of the markup parser is, in document order,
  exactly the records of the matched containers whose trimmed headline text and
  trimmed date text are both non-empty: a container is represented in the output if
  and only if both are non-empty. In particular a container whose date is empty or
  absent is dropped, whatever its headline: the output is that of the document
  without it, and no record with a null date marker is made for it.
\<close>

theorem C10_parseHtmlNews_keeps_iff_both_nonempty:
  "parseHtmlNews html =
     map (\<lambda>el. \<lparr>date = formatDate (trim (text_of (GrNewsDate el))),
                headline = trim (text_of (GrNewsHead el))\<rparr>)
       (filter (\<lambda>el. trim (text_of (GrNewsHead el)) \<noteq> [] \<and> trim (text_of (GrNewsDate el)) \<noteq> [])
          html)
   \<and> (trim (text_of (GrNewsDate el)) = [] \<longrightarrow>
        parseHtmlNews (before @ el # after) = parseHtmlNews (before @ after))
   \<and> (trim (text_of (GrNewsHead el)) = [] \<longrightarrow>
        parseHtmlNews (before @ el # after) = parseHtmlNews (before @ after))
   \<and> (trim (text_of (GrNewsHead el)) \<noteq> [] \<and> trim (text_of (GrNewsDate el)) \<noteq> [] \<longrightarrow>
        parseHtmlNews (before @ el # after) =
          parseHtmlNews before
            @ \<lparr>date = formatDate (trim (text_of (GrNewsDate el))),
                headline = trim (text_of (GrNewsHead el))\<rparr> # parseHtmlNews after)"
proof -
  have app: "parseHtmlNews (xs @ ys) = parseHtmlNews xs @ parseHtmlNews ys" for xs ys
    by (simp add: parseHtmlNews_filter_map)
  have one: "parseHtmlNews (el # after) =
     (if trim (text_of (GrNewsHead el)) \<noteq> [] \<and> trim (text_of (GrNewsDate el)) \<noteq> []
      then \<lparr>date = formatDate (trim (text_of (GrNewsDate el))),
            headline = trim (text_of (GrNewsHead el))\<rparr> # parseHtmlNews after
      else parseHtmlNews after)"
    by (rule parseHtmlNews_Cons)
  show ?thesis
    using parseHtmlNews_filter_map [of html] by (simp add: app one)
qed

theorem C10_witness:
  "parseHtmlNews
     [\<lparr>GrNewsHead = ['' Nifty ends flat ''], GrNewsDate = [''03-Nov-2025&nbsp;15:40 Hrs IST'']\<rparr>,
      \<lparr>GrNewsHead = [''Sensex up''], GrNewsDate = []\<rparr>,
      \<lparr>GrNewsHead = [], GrNewsDate = [''03-Nov-2025 09:00'']\<rparr>]
   = [\<lparr>date = ''03-Nov-2025 15:40'', headline = ''Nifty ends flat''\<rparr>]
   \<and> parseHtmlNews
     [\<lparr>GrNewsHead = ['' Nifty ends flat ''], GrNewsDate = [''03-Nov-2025&nbsp;15:40 Hrs IST'']\<rparr>,
      \<lparr>GrNewsHead = [''Sensex up''], GrNewsDate = []\<rparr>]
   = parseHtmlNews
     [\<lparr>GrNewsHead = ['' Nifty ends flat ''], GrNewsDate = [''03-Nov-2025&nbsp;15:40 Hrs IST'']\<rparr>]"
  using C10_parseHtmlNews_keeps_iff_both_nonempty
     [of "[\<lparr>GrNewsHead = ['' Nifty ends flat ''], GrNewsDate = [''03-Nov-2025&nbsp;15:40 Hrs IST'']\<rparr>,
      \<lparr>GrNewsHead = [''Sensex up''], GrNewsDate = []\<rparr>,
      \<lparr>GrNewsHead = [], GrNewsDate = [''03-Nov-2025 09:00'']\<rparr>]"
      "\<lparr>GrNewsHead = [''Sensex up''], GrNewsDate = []\<rparr>"
      "[\<lparr>GrNewsHead = ['' Nifty ends flat ''], GrNewsDate = [''03-Nov-2025&nbsp;15:40 Hrs IST'']\<rparr>]"
      "[]"]
  by (simp add: text_of_def trim_def is_ws_def formatDate_def replace_all_def)

text \<open>
  C9. For every request to \<^verbatim>\<open>/news\<close> in which either category's fetch fails, the
  handler sends the previously cached object and leaves \<^verbatim>\<open>cachedNews\<close> and
  \<^verbatim>\<open>lastFetched\<close> as they were; so the TTL window is not extended, and every later
  request at least \<^verbatim>\<open>CACHE_TTL\<close> past the unchanged \<^verbatim>\<open>lastFetched\<close> asks the upstream
  again.
\<close>

theorem C9_failed_fetch_serves_cache_and_keeps_state:
  assumes "nb_general = HttpError \<or> nb_derivative = HttpError"
  shows "sent (news_handler st now nb_general nb_derivative) = cached_news st
       \<and> state_after (news_handler st now nb_general nb_derivative) = st
       \<and> (\<forall>now' g' d'. CACHE_TTL \<le> now' - lastFetched st \<longrightarrow>
             fetched (news_handler (state_after (news_handler st now nb_general nb_derivative))
                        now' g' d'))"
proof -
  have keep: "state_after (news_handler st now nb_general nb_derivative) = st"
    using assms by (auto simp: news_handler_def split: option.splits)
  have send: "sent (news_handler st now nb_general nb_derivative) = cached_news st"
    using assms by (auto simp: news_handler_def split: option.splits)
  have again: "fetched (news_handler st now' g' d')" if "CACHE_TTL \<le> now' - lastFetched st"
    for now' g' d'
    using that by (simp add: news_handler_def Let_def split: option.splits)
  show ?thesis using keep send again by simp
qed

theorem C9_witness:
  "sent (news_handler
           \<lparr>cached_news = \<lparr>cn_general = [\<lparr>date = ''03-Nov-2025 15:40'', headline = ''Nifty ends flat''\<rparr>],
                            cn_derivative = []\<rparr>, lastFetched = 1000\<rparr>
           100000 HttpError (HttpOk []))
     = \<lparr>cn_general = [\<lparr>date = ''03-Nov-2025 15:40'', headline = ''Nifty ends flat''\<rparr>],
        cn_derivative = []\<rparr>
   \<and> state_after (news_handler
           \<lparr>cached_news = \<lparr>cn_general = [\<lparr>date = ''03-Nov-2025 15:40'', headline = ''Nifty ends flat''\<rparr>],
                            cn_derivative = []\<rparr>, lastFetched = 1000\<rparr>
           100000 HttpError (HttpOk []))
     = \<lparr>cached_news = \<lparr>cn_general = [\<lparr>date = ''03-Nov-2025 15:40'', headline = ''Nifty ends flat''\<rparr>],
                        cn_derivative = []\<rparr>, lastFetched = 1000\<rparr>
   \<and> fetched (news_handler
           \<lparr>cached_news = \<lparr>cn_general = [\<lparr>date = ''03-Nov-2025 15:40'', headline = ''Nifty ends flat''\<rparr>],
                            cn_derivative = []\<rparr>, lastFetched = 1000\<rparr>
           100000 HttpError (HttpOk []))
   \<and> fetched (news_handler
           (state_after (news_handler
              \<lparr>cached_news = \<lparr>cn_general = [\<lparr>date = ''03-Nov-2025 15:40'', headline = ''Nifty ends flat''\<rparr>],
                               cn_derivative = []\<rparr>, lastFetched = 1000\<rparr>
              100000 HttpError (HttpOk [])))
           100001 (HttpOk []) (HttpOk []))"
  using C9_failed_fetch_serves_cache_and_keeps_state
     [of HttpError "HttpOk []"
         "\<lparr>cached_news = \<lparr>cn_general = [\<lparr>date = ''03-Nov-2025 15:40'', headline = ''Nifty ends flat''\<rparr>],
                          cn_derivative = []\<rparr>, lastFetched = 1000\<rparr>"
         100000]
  by (simp add: news_handler_def CACHE_TTL_def Let_def)

section \<open>Properties of the fallback fetcher\<close>

lemma trim_idem: "trim (trim s) = trim s"
proof -
  define u where "u = dropWhile is_ws s"
  define v where "v = dropWhile is_ws (rev u)"
  have t: "trim s = rev v" by (simp add: trim_def u_def v_def)
  have split: "u = rev v @ rev (takeWhile is_ws (rev u))"
  proof -
    have "rev u = takeWhile is_ws (rev u) @ v" by (simp add: v_def)
    then have "rev (rev u) = rev (takeWhile is_ws (rev u) @ v)" by simp
    then show ?thesis by simp
  qed
  have front: "dropWhile is_ws (rev v) = rev v"
  proof (cases "rev v = []")
    case True
    then show ?thesis by simp
  next
    case False
    then have "u \<noteq> []" using split by auto
    then have "\<not> is_ws (hd u)" unfolding u_def by (rule hd_dropWhile)
    moreover have "hd u = hd (rev v)" using split False by (metis hd_append2)
    ultimately show ?thesis using False by (simp add: dropWhile_eq_self_iff)
  qed
  have tail: "dropWhile is_ws v = v" by (simp add: v_def)
  show ?thesis unfolding t by (simp add: trim_def front tail)
qed

lemma collect_length:
  "length headlines < 10 \<Longrightarrow> length (collect ms headlines) \<le> 10"
proof (induction ms arbitrary: headlines)
  case Nil
  then show ?case by simp
next
  case (Cons m ms)
  show ?case
  proof (cases "trim (strip_tags_from 0 m) \<noteq> [] \<and> 5 < length (trim (strip_tags_from 0 m))")
    case True
    show ?thesis
    proof (cases "10 \<le> Suc (length headlines)")
      case True
      then show ?thesis using Cons.prems \<open>trim (strip_tags_from 0 m) \<noteq> [] \<and> _\<close> by (simp add: Let_def)
    next
      case False
      then show ?thesis
        using Cons.IH [of "headlines @ [\<lparr>nb_headline = trim (strip_tags_from 0 m), nb_date = JNull\<rparr>]"]
              \<open>trim (strip_tags_from 0 m) \<noteq> [] \<and> _\<close>
        by (simp add: Let_def)
    qed
  next
    case False
    then show ?thesis using Cons.IH [of headlines] Cons.prems by (auto simp: Let_def)
  qed
qed

lemma collect_kept:
  "\<forall>h \<in> set headlines. Q h \<Longrightarrow>
   (\<And>m. m \<in> set ms \<Longrightarrow> 5 < length (trim (strip_tags_from 0 m)) \<Longrightarrow>
      Q \<lparr>nb_headline = trim (strip_tags_from 0 m), nb_date = JNull\<rparr>) \<Longrightarrow>
   \<forall>h \<in> set (collect ms headlines). Q h"
proof (induction ms arbitrary: headlines)
  case Nil
  then show ?case by simp
next
  case (Cons m ms)
  have rest: "\<And>m'. m' \<in> set ms \<Longrightarrow> 5 < length (trim (strip_tags_from 0 m')) \<Longrightarrow>
      Q \<lparr>nb_headline = trim (strip_tags_from 0 m'), nb_date = JNull\<rparr>"
    using Cons.prems(2) by simp
  show ?case
  proof (cases "trim (strip_tags_from 0 m) \<noteq> [] \<and> 5 < length (trim (strip_tags_from 0 m))")
    case True
    then have q: "Q \<lparr>nb_headline = trim (strip_tags_from 0 m), nb_date = JNull\<rparr>"
      using Cons.prems(2) [of m] by simp
    have all: "\<forall>h \<in> set (headlines @ [\<lparr>nb_headline = trim (strip_tags_from 0 m), nb_date = JNull\<rparr>]). Q h"
      using Cons.prems(1) q by simp
    show ?thesis
      using Cons.IH [OF all rest] all True by (simp add: Let_def)
  next
    case False
    then show ?thesis
      using Cons.IH [OF Cons.prems(1) rest] Cons.prems(1) by (auto simp: Let_def)
  qed
qed

text \<open>
  C7. For every outcome of the request to the fallback page, the extractor returns at
  most 10 headlines; every headline returned is the tag-stripped and trimmed text of
  an anchor matched in the body, is not empty, and stays the same when trimmed
  again; and no headline of 5 characters or fewer is returned, so every entry
  shorter than 5 characters is discarded.
\<close>

theorem C7_fallback_headlines:
  "length (fetchNirmalbangHeadlines resp) \<le> 10
   \<and> (\<forall>h \<in> set (fetchNirmalbangHeadlines resp).
         nb_headline h \<noteq> [] \<and> trim (nb_headline h) = nb_headline h
         \<and> 5 < length (nb_headline h) \<and> \<not> length (nb_headline h) < 5 \<and> nb_date h = JNull)
   \<and> (\<forall>html. resp = Body html \<longrightarrow>
         (\<forall>h \<in> set (fetchNirmalbangHeadlines resp).
            \<exists>m \<in> set (matchAll_from 0 html). nb_headline h = trim (strip_tags_from 0 m)))"
proof (cases resp)
  case Rejected
  then show ?thesis by (simp add: fetchNirmalbangHeadlines_def)
next
  case (Body html)
  let ?ms = "matchAll_from 0 html"
  have len: "length (collect ?ms []) \<le> 10"
    by (rule collect_length) simp
  have shape: "\<forall>h \<in> set (collect ?ms []).
         nb_headline h \<noteq> [] \<and> trim (nb_headline h) = nb_headline h
         \<and> 5 < length (nb_headline h) \<and> \<not> length (nb_headline h) < 5 \<and> nb_date h = JNull"
    by (rule collect_kept) (auto simp: trim_idem)
  have origin: "\<forall>h \<in> set (collect ?ms []).
         \<exists>m \<in> set ?ms. nb_headline h = trim (strip_tags_from 0 m)"
    by (rule collect_kept) auto
  show ?thesis
    using len shape origin Body by (simp add: fetchNirmalbangHeadlines_def)
qed

theorem C7_witness:
  "fetchNirmalbangHeadlines
        (Body ''<a id=n href=\"/n\"> <b>Sensex</b> up </a><a href='/'>Home</a>'')
      = [\<lparr>nb_headline = ''Sensex up'', nb_date = JNull\<rparr>]
   \<and> length (fetchNirmalbangHeadlines
        (Body ''<a id=n href=\"/n\"> <b>Sensex</b> up </a><a href='/'>Home</a>'')) \<le> 10
   \<and> trim ''Sensex up'' = ''Sensex up''
   \<and> 5 < length ''Sensex up''"
proof -
  have e: "fetchNirmalbangHeadlines
        (Body ''<a id=n href=\"/n\"> <b>Sensex</b> up </a><a href='/'>Home</a>'')
      = [\<lparr>nb_headline = ''Sensex up'', nb_date = JNull\<rparr>]"
    by code_simp
  show ?thesis
    using C7_fallback_headlines
      [of "Body ''<a id=n href=\"/n\"> <b>Sensex</b> up </a><a href='/'>Home</a>''"]
    unfolding e by simp
qed

section \<open>Properties of the normalizer\<close>

lemma normalize_item_headline:
  "normalize_item rt it = Inr x \<Longrightarrow> \<exists>h. ToString rt (headline_of it) = Inr h \<and> item_headline x = trim h"
  by (auto simp: normalize_item_def Let_def split: if_splits sum.splits)

lemma map_items_append:
  "map_items rt (xs @ ys) =
     (case map_items rt xs of
        Inl e \<Rightarrow> Inl e
      | Inr as \<Rightarrow> (case map_items rt ys of Inl e \<Rightarrow> Inl e | Inr bs \<Rightarrow> Inr (as @ bs)))"
  by (induction xs) (auto split: sum.splits)

lemma map_items_trimmed:
  "map_items rt list = Inr ns \<Longrightarrow> \<forall>x \<in> set ns. \<exists>h. item_headline x = trim h"
proof (induction list arbitrary: ns)
  case Nil
  then show ?case by simp
next
  case (Cons it its)
  from Cons.prems obtain x xs where parts: "normalize_item rt it = Inr x" "map_items rt its = Inr xs"
      "ns = x # xs"
    by (auto split: sum.splits)
  have "\<exists>h. item_headline x = trim h"
    using normalize_item_headline [OF parts(1)] by blast
  then show ?case using Cons.IH [OF parts(2)] parts(3) by simp
qed

text \<open>
  C5. For every structured payload on which the normalizer returns, every record of
  its output has a headline that is not empty, also after trimming. And an input
  record whose extracted headline, as text, is empty or white space only is excluded:
  the output is that of the payload without the record.
\<close>

theorem C5_only_nonempty_headlines:
  "(parseAcesphereList rt obj = Inr out \<longrightarrow>
      (\<forall>x \<in> set out. item_headline x \<noteq> [] \<and> trim (item_headline x) \<noteq> []))
   \<and> (list_of obj = JArr (before @ it # after) \<and> list_of obj' = JArr (before @ after)
        \<and> parseAcesphereList rt obj = Inr out
        \<and> ToString rt (headline_of it) = Inr h \<and> trim h = []
      \<longrightarrow> parseAcesphereList rt obj' = Inr out)"
proof (intro conjI impI)
  assume p: "parseAcesphereList rt obj = Inr out"
  show "\<forall>x \<in> set out. item_headline x \<noteq> [] \<and> trim (item_headline x) \<noteq> []"
  proof (cases "list_of obj")
    case (JArr list)
    then obtain ns where ns: "map_items rt list = Inr ns"
      and out: "out = filter (\<lambda>x. item_headline x \<noteq> [] \<and> 0 < length (item_headline x)) ns"
      using p by (auto simp: parseAcesphereList_def split: sum.splits)
    show ?thesis
    proof
      fix x assume "x \<in> set out"
      then have x: "x \<in> set ns" "item_headline x \<noteq> []" using out by auto
      then obtain h where "item_headline x = trim h" using map_items_trimmed [OF ns] by blast
      then have "trim (item_headline x) = item_headline x" by (simp add: trim_idem)
      then show "item_headline x \<noteq> [] \<and> trim (item_headline x) \<noteq> []" using x by simp
    qed
  qed (use p in \<open>auto simp: parseAcesphereList_def\<close>)
next
  assume a: "list_of obj = JArr (before @ it # after) \<and> list_of obj' = JArr (before @ after)
        \<and> parseAcesphereList rt obj = Inr out
        \<and> ToString rt (headline_of it) = Inr h \<and> trim h = []"
  then obtain ns where ns: "map_items rt (before @ it # after) = Inr ns"
    and out: "out = filter (\<lambda>x. item_headline x \<noteq> [] \<and> 0 < length (item_headline x)) ns"
    by (auto simp: parseAcesphereList_def split: sum.splits)
  from ns obtain nb n na where parts: "map_items rt before = Inr nb" "normalize_item rt it = Inr n"
      "map_items rt after = Inr na" "ns = nb @ n # na"
    by (auto simp: map_items_append split: sum.splits)
  have "item_headline n = []"
    using normalize_item_headline [OF parts(2)] a by auto
  then have "out = filter (\<lambda>x. item_headline x \<noteq> [] \<and> 0 < length (item_headline x)) (nb @ na)"
    using out parts(4) by simp
  moreover have "map_items rt (before @ after) = Inr (nb @ na)"
    using parts by (simp add: map_items_append)
  ultimately show "parseAcesphereList rt obj' = Inr out"
    using a by (simp add: parseAcesphereList_def)
qed

theorem C5_witness:
  "parseAcesphereList (example_runtime 0 [])
      (JObj [(''NewsList'', JArr [JObj [(''Title'', JStr '' Nifty ends flat '')],
                                  JObj [(''Headline'', JStr ''   '')]])])
     = Inr [\<lparr>item_headline = ''Nifty ends flat'', dateRaw = JNull, item_date = []\<rparr>]
   \<and> trim ''Nifty ends flat'' \<noteq> []
   \<and> ToString (example_runtime 0 []) (headline_of (JObj [(''Headline'', JStr ''   '')])) = Inr ''   ''
   \<and> trim ''   '' = []
   \<and> parseAcesphereList (example_runtime 0 []) (JArr [JObj [(''Title'', JStr '' Nifty ends flat '')]])
     = Inr [\<lparr>item_headline = ''Nifty ends flat'', dateRaw = JNull, item_date = []\<rparr>]"
proof -
  let ?rt = "example_runtime 0 []"
  let ?a = "JObj [(''Title'', JStr '' Nifty ends flat '')]"
  let ?b = "JObj [(''Headline'', JStr ''   '')]"
  let ?out = "[\<lparr>item_headline = ''Nifty ends flat'', dateRaw = JNull, item_date = []\<rparr>]"
  have p: "parseAcesphereList ?rt (JObj [(''NewsList'', JArr [?a, ?b])]) = Inr ?out"
    by (simp add: parseAcesphereList_def list_of_def opt_prop_def normalize_item_def
        headline_of_def dateVal_of_def formatDateToDDMMYYYY_HHMM_def trim_def is_ws_def)
  have l: "list_of (JObj [(''NewsList'', JArr [?a, ?b])]) = JArr ([?a] @ ?b # [])"
    by (simp add: list_of_def opt_prop_def)
  have l': "list_of (JArr [?a]) = JArr ([?a] @ [])"
    by (simp add: list_of_def opt_prop_def)
  have h: "ToString ?rt (headline_of ?b) = Inr ''   ''"
    by (simp add: headline_of_def)
  have t: "trim ''   '' = []"
    by (simp add: trim_def is_ws_def)
  show ?thesis
    using C5_only_nonempty_headlines
      [of ?rt "JObj [(''NewsList'', JArr [?a, ?b])]" ?out "[?a]" ?b "[]" "JArr [?a]" "''   ''"]
      p l l' h t
    by simp
qed

section \<open>Properties of the refresh cycle\<close>

lemma normalize_item_comparable:
  "normalize_item rt it = Inr x \<Longrightarrow> comparable rt x"
  by (auto simp: normalize_item_def comparable_def formatDateToDDMMYYYY_HHMM_def Let_def
      split: if_splits sum.splits)

lemma map_items_comparable:
  "map_items rt list = Inr ns \<Longrightarrow> \<forall>x \<in> set ns. comparable rt x"
proof (induction list arbitrary: ns)
  case Nil
  then show ?case by simp
next
  case (Cons it its)
  from Cons.prems obtain x xs where parts: "normalize_item rt it = Inr x" "map_items rt its = Inr xs"
      "ns = x # xs"
    by (auto split: sum.splits)
  show ?case
    using normalize_item_comparable [OF parts(1)] Cons.IH [OF parts(2)] parts(3) by simp
qed

lemma parseAcesphereList_comparable:
  "parseAcesphereList rt obj = Inr out \<Longrightarrow> \<forall>x \<in> set out. comparable rt x"
proof (cases "list_of obj")
  case (JArr list)
  assume "parseAcesphereList rt obj = Inr out"
  then obtain ns where "map_items rt list = Inr ns" "set out \<subseteq> set ns"
    using JArr by (auto simp: parseAcesphereList_def split: sum.splits)
  then show ?thesis using map_items_comparable by blast
qed (auto simp: parseAcesphereList_def)

lemma sequence_map_Inr:
  "\<forall>x \<in> set xs. \<exists>y. f x = Inr y \<Longrightarrow> \<exists>ys. sequence (map f xs) = Inr ys \<and> length ys = length xs"
  by (induction xs) (auto split: sum.splits)

lemma array_sort_total:
  assumes "\<forall>x \<in> set arr. \<exists>tv. time_value rt (dateRaw x) = Inr tv"
  shows "\<exists>s. array_sort rt arr = Inr s"
proof -
  obtain tvs where "sequence (map (\<lambda>r. time_value rt (dateRaw r)) arr) = Inr tvs"
    using sequence_map_Inr [OF assms] by blast
  then show ?thesis by (simp add: array_sort_def)
qed

lemma sortByDateDesc_total:
  assumes "\<forall>x \<in> set arr. comparable rt x"
  shows "\<exists>s. sortByDateDesc rt arr = Inr s"
proof -
  have "\<forall>x \<in> set (filter (\<lambda>r. truthy (dateRaw r)) arr). \<exists>tv. time_value rt (dateRaw x) = Inr tv"
    using assms by (auto simp: comparable_def)
  from array_sort_total [OF this] show ?thesis
    by (auto simp: sortByDateDesc_def)
qed

lemma sortByDateDesc_undated:
  assumes "\<forall>x \<in> set arr. \<not> truthy (dateRaw x)"
  shows "sortByDateDesc rt arr = Inr arr"
proof -
  have "filter (\<lambda>r. truthy (dateRaw r)) arr = []" using assms by (simp add: filter_empty_conv)
  moreover have "filter (\<lambda>r. \<not> truthy (dateRaw r)) arr = arr" using assms by (simp add: filter_id_conv)
  ultimately show ?thesis by (simp add: sortByDateDesc_def array_sort_def)
qed

lemma fetchNirmalbangHeadlines_null_dates:
  "\<forall>h \<in> set (fetchNirmalbangHeadlines resp). nb_date h = JNull"
proof (cases resp)
  case Rejected
  then show ?thesis by (simp add: fetchNirmalbangHeadlines_def)
next
  case (Body html)
  have "\<forall>h \<in> set (collect (matchAll_from 0 html) []). nb_date h = JNull"
    by (rule collect_kept) auto
  then show ?thesis using Body by (simp add: fetchNirmalbangHeadlines_def)
qed

lemma sequence_nb_items:
  "\<forall>h \<in> set hs. nb_date h = JNull \<Longrightarrow>
   sequence (map (nb_item rt) hs)
     = Inr (map (\<lambda>n. \<lparr>item_headline = nb_headline n, dateRaw = JNull, item_date = []\<rparr>) hs)"
  by (induction hs) (auto simp: nb_item_def)

lemma fallback_general_eq:
  "fallback_general rt w
     = Inr (map (\<lambda>n. \<lparr>item_headline = nb_headline n, dateRaw = JNull, item_date = []\<rparr>)
              (fetchNirmalbangHeadlines (nirmalbang_response w)))"
  unfolding fallback_general_def
  by (rule sequence_nb_items) (rule fetchNirmalbangHeadlines_null_dates)

lemma fetch_derivative_comparable:
  "\<forall>x \<in> set (fetch_derivative rt w). comparable rt x"
proof (cases "acesphere_derivative rt w")
  case (Inl e)
  then show ?thesis by (simp add: fetch_derivative_def)
next
  case (Inr xs)
  then obtain j where "parseAcesphereList rt j = Inr xs"
    by (auto simp: acesphere_derivative_def split: sum.splits)
  then have "\<forall>x \<in> set xs. comparable rt x" by (rule parseAcesphereList_comparable)
  then show ?thesis using Inr by (simp add: fetch_derivative_def)
qed

lemma fetch_general_total:
  "\<exists>items. fetch_general rt w = Inr items \<and> (\<forall>x \<in> set items. comparable rt x)"
proof (cases "acesphere_general rt w")
  case (Inl e)
  then show ?thesis
    by (auto simp: fetch_general_def fallback_general_eq comparable_def)
next
  case (Inr xs)
  then obtain j where "parseAcesphereList rt j = Inr xs"
    by (auto simp: acesphere_general_def split: sum.splits)
  then have "\<forall>x \<in> set xs. comparable rt x" by (rule parseAcesphereList_comparable)
  then show ?thesis using Inr by (simp add: fetch_general_def)
qed

text \<open>
  The outer \<^verbatim>\<open>catch\<close> of \<^verbatim>\<open>refreshNewsNow\<close> is never reached: every cycle
  assigns the three fields of the cache.
\<close>

lemma refreshNewsNow_assigns:
  "\<exists>generalItems derivativeSorted generalSorted.
     fetch_general rt w = Inr generalItems
     \<and> sortByDateDesc rt (fetch_derivative rt w) = Inr derivativeSorted
     \<and> sortByDateDesc rt generalItems = Inr generalSorted
     \<and> refreshNewsNow rt w c =
         \<lparr>derivative = map final_entry (take 4 derivativeSorted),
          general = map final_entry (take 6 generalSorted),
          lastUpdated = Some (now_iso w)\<rparr>"
proof -
  obtain gi where gi: "fetch_general rt w = Inr gi" "\<forall>x \<in> set gi. comparable rt x"
    using fetch_general_total by blast
  obtain ds where ds: "sortByDateDesc rt (fetch_derivative rt w) = Inr ds"
    using sortByDateDesc_total [OF fetch_derivative_comparable] by blast
  obtain gs where gs: "sortByDateDesc rt gi = Inr gs"
    using sortByDateDesc_total [OF gi(2)] by blast
  show ?thesis using gi(1) ds gs by (simp add: refreshNewsNow_def)
qed




lemma first_nonspace_lt:
  assumes "dropWhile is_ws text = CHR ''<'' # rest"
  shows "startsWith (trim text) ''<''"
proof -
  have keep: "\<exists>xs. dropWhile is_ws (ys @ [CHR ''<'']) = xs @ [CHR ''<'']" for ys
    by (induction ys) (auto simp: is_ws_def)
  obtain xs where "dropWhile is_ws (rev rest @ [CHR ''<'']) = xs @ [CHR ''<'']"
    using keep by blast
  then have "trim text = CHR ''<'' # rev xs"
    using assms by (simp add: trim_def)
  then show ?thesis by simp
qed

lemma scenario_time_A: "iso_utc_parse ''2024-01-02T15:04:00Z'' = Some (Some 1704207840000)"
  by code_simp

lemma scenario_time_B: "iso_utc_parse ''2024-01-03T09:00:00Z'' = Some (Some 1704272400000)"
  by code_simp

lemma scenario_day_A: "civil_from_days (Day 1704207840000) = (2024, 1, 2)"
  by code_simp

lemma scenario_day_B: "civil_from_days (Day 1704272400000) = (2024, 1, 3)"
  by code_simp

lemma pads: "pad 2 = ''02''" "pad 1 = ''01''" "pad 3 = ''03''" "pad 15 = ''15''" "pad 4 = ''04''"
  "pad 9 = ''09''" "pad 0 = ''00''" "show_int 2024 = ''2024''"
  by code_simp+

lemma fmtA:
  assumes "local_tza rt 1704207840000 = 0"
  shows "formatDateToDDMMYYYY_HHMM rt (JStr ''2024-01-02T15:04:00Z'') = Inr ''02-01-2024 15:04''"
  using assms
  by (simp add: formatDateToDDMMYYYY_HHMM_def Date_parse_def scenario_time_A getDate_def getMonth_def
      getFullYear_def getHours_def getMinutes_def LocalTime_def scenario_day_A pads)

lemma fmtB:
  assumes "local_tza rt 1704272400000 = 0"
  shows "formatDateToDDMMYYYY_HHMM rt (JStr ''2024-01-03T09:00:00Z'') = Inr ''03-01-2024 09:00''"
  using assms
  by (simp add: formatDateToDDMMYYYY_HHMM_def Date_parse_def scenario_time_B getDate_def getMonth_def
      getFullYear_def getHours_def getMinutes_def LocalTime_def scenario_day_B pads)

lemma parse_scenario:
  assumes "local_tza rt 1704207840000 = 0" "local_tza rt 1704272400000 = 0"
  shows "parseAcesphereList rt scenario_payload =
     Inr [\<lparr>item_headline = ''A'', dateRaw = JStr ''2024-01-02T15:04:00Z'', item_date = ''02-01-2024 15:04''\<rparr>,
          \<lparr>item_headline = ''B'', dateRaw = JStr ''2024-01-03T09:00:00Z'', item_date = ''03-01-2024 09:00''\<rparr>]"
  by (simp add: parseAcesphereList_def scenario_payload_def list_of_def opt_prop_def
      normalize_item_def dateVal_of_def headline_of_def fmtA [OF assms(1)] fmtB [OF assms(2)]
      trim_def is_ws_def)

lemma sort_scenario:
  "sortByDateDesc rt
     [\<lparr>item_headline = ''A'', dateRaw = JStr ''2024-01-02T15:04:00Z'', item_date = ''02-01-2024 15:04''\<rparr>,
      \<lparr>item_headline = ''B'', dateRaw = JStr ''2024-01-03T09:00:00Z'', item_date = ''03-01-2024 09:00''\<rparr>]
   = Inr [\<lparr>item_headline = ''B'', dateRaw = JStr ''2024-01-03T09:00:00Z'', item_date = ''03-01-2024 09:00''\<rparr>,
          \<lparr>item_headline = ''A'', dateRaw = JStr ''2024-01-02T15:04:00Z'', item_date = ''02-01-2024 15:04''\<rparr>]"
  by (simp add: sortByDateDesc_def array_sort_def time_key_def Date_parse_def scenario_time_A scenario_time_B)

lemma refreshNewsNow_general_structured:
  assumes "acesphere_general rt w = Inr items"
  shows "\<exists>ordered. sortByDateDesc rt items = Inr ordered
     \<and> general (refreshNewsNow rt w c) = map final_entry (take 6 ordered)"
proof -
  have fg: "fetch_general rt w = Inr items" using assms by (simp add: fetch_general_def)
  obtain gi ds gs where r: "fetch_general rt w = Inr gi"
      "sortByDateDesc rt gi = Inr gs"
      "refreshNewsNow rt w c =
         \<lparr>derivative = map final_entry (take 4 ds), general = map final_entry (take 6 gs),
          lastUpdated = Some (now_iso w)\<rparr>"
    using refreshNewsNow_assigns [of rt w c] by blast
  have "gi = items" using fg r(1) by simp
  then show ?thesis using r(2) unfolding r(3) by simp
qed

lemma scenario_fetch:
  "fetchAcesphere (example_runtime tza [(scenario_body, scenario_payload)]) (general_response scenario_cycle)
     = Inr scenario_payload"
  by (simp add: fetchAcesphere_def scenario_cycle_def example_runtime_def scenario_body_def
      trim_def is_ws_def)











lemma epoch_general:
  "normalize_sort_cap (example_runtime 0 [(''[2]'', epoch_payload)]) 6 epoch_payload
     = Inr [\<lparr>date = ''31-12-1969 00:00'', headline = ''old''\<rparr>, \<lparr>date = [], headline = ''epoch''\<rparr>]"
  by code_simp



lemma failing_cycle_fails:
  "acesphere_derivative rt failing_cycle = Inl FetchFailed"
  "acesphere_general rt failing_cycle = Inl ReturnedHTML"
  "fetchNirmalbangHeadlines (nirmalbang_response failing_cycle) = []"
  by (simp_all add: acesphere_derivative_def acesphere_general_def fetchAcesphere_def
      fetchNirmalbangHeadlines_def failing_cycle_def trim_def is_ws_def)

lemma fallback_cycle_headlines:
  "fetchNirmalbangHeadlines (nirmalbang_response fallback_cycle)
     = [\<lparr>nb_headline = ''Sensex up'', nb_date = JNull\<rparr>]"
  by code_simp

text \<open>
  C1, as the code has it. For every refresh cycle in which every fetch strategy of
  every category fails (the structured fetch of the derivative category throws, the
  structured fetch of the general category throws, and the fallback yields nothing),
  the cycle completes and overwrites the cache: the general list and the derivative
  list are empty after it, and \<^verbatim>\<open>lastUpdated\<close> is the time of the cycle.
\<close>

theorem C1_all_strategies_fail_overwrites:
  assumes "acesphere_derivative rt w = Inl e1"
    and "acesphere_general rt w = Inl e2"
    and "fetchNirmalbangHeadlines (nirmalbang_response w) = []"
  shows "refreshNewsNow rt w c = \<lparr>derivative = [], general = [], lastUpdated = Some (now_iso w)\<rparr>"
proof -
  have d: "fetch_derivative rt w = []" using assms(1) by (simp add: fetch_derivative_def)
  have g: "fetch_general rt w = Inr []"
    using assms(2,3) by (simp add: fetch_general_def fallback_general_def)
  have s: "sortByDateDesc rt [] = Inr []" by (simp add: sortByDateDesc_def array_sort_def)
  show ?thesis by (simp add: refreshNewsNow_def d g s)
qed

theorem C1_witness:
  "acesphere_derivative (example_runtime 0 []) failing_cycle = Inl FetchFailed
   \<and> acesphere_general (example_runtime 0 []) failing_cycle = Inl ReturnedHTML
   \<and> fetchNirmalbangHeadlines (nirmalbang_response failing_cycle) = []
   \<and> refreshNewsNow (example_runtime 0 []) failing_cycle earlier_cache
       = \<lparr>derivative = [], general = [], lastUpdated = Some ''2024-01-03T10:00:00.000Z''\<rparr>"
  using C1_all_strategies_fail_overwrites
    [OF failing_cycle_fails(1) [of "example_runtime 0 []"]
        failing_cycle_fails(2) [of "example_runtime 0 []"] failing_cycle_fails(3),
     of earlier_cache]
    failing_cycle_fails(1) [of "example_runtime 0 []"]
    failing_cycle_fails(2) [of "example_runtime 0 []"] failing_cycle_fails(3)
  by (simp add: failing_cycle_def)

text \<open>
  The snapshot held before such a cycle is not kept: a cache with one general
  record is empty after a cycle in which every strategy fails.
\<close>

theorem C1_counterexample:
  "acesphere_derivative (example_runtime 0 []) failing_cycle = Inl FetchFailed
   \<and> acesphere_general (example_runtime 0 []) failing_cycle = Inl ReturnedHTML
   \<and> fetchNirmalbangHeadlines (nirmalbang_response failing_cycle) = []
   \<and> general earlier_cache = [\<lparr>date = ''03-01-2024 09:00'', headline = ''B''\<rparr>]
   \<and> general (refreshNewsNow (example_runtime 0 []) failing_cycle earlier_cache) = []
   \<and> lastUpdated (refreshNewsNow (example_runtime 0 []) failing_cycle earlier_cache)
       = Some ''2024-01-03T10:00:00.000Z''
   \<and> refreshNewsNow (example_runtime 0 []) failing_cycle earlier_cache \<noteq> earlier_cache"
proof -
  have s: "sortByDateDesc rt [] = Inr []" for rt by (simp add: sortByDateDesc_def array_sort_def)
  have r: "refreshNewsNow (example_runtime 0 []) failing_cycle earlier_cache
       = \<lparr>derivative = [], general = [], lastUpdated = Some ''2024-01-03T10:00:00.000Z''\<rparr>"
    by (simp add: refreshNewsNow_def fetch_derivative_def fetch_general_def fallback_general_def
        failing_cycle_fails s) (simp add: failing_cycle_def)
  show ?thesis
    unfolding r using failing_cycle_fails(1) [of "example_runtime 0 []"]
      failing_cycle_fails(2) [of "example_runtime 0 []"] failing_cycle_fails(3)
    by (simp add: earlier_cache_def)
qed

text \<open>
  C2, as the code has it. In a process whose local time is UTC at the two instants
  of the scenario, the pipeline of normalizing, sorting and capping, under either
  cap, turns the payload of the scenario into exactly
  \<^verbatim>\<open>[{headline:"B",date:"03-01-2024 09:00"},{headline:"A",date:"02-01-2024 15:04"}]\<close>,
  and a cycle whose structured general fetch returns the payload caches that list.
\<close>

theorem C2_scenario_in_utc:
  assumes "local_tza rt 1704207840000 = 0" and "local_tza rt 1704272400000 = 0"
  shows "normalize_sort_cap rt 6 scenario_payload
           = Inr [\<lparr>date = ''03-01-2024 09:00'', headline = ''B''\<rparr>,
                  \<lparr>date = ''02-01-2024 15:04'', headline = ''A''\<rparr>]
       \<and> normalize_sort_cap rt 4 scenario_payload
           = Inr [\<lparr>date = ''03-01-2024 09:00'', headline = ''B''\<rparr>,
                  \<lparr>date = ''02-01-2024 15:04'', headline = ''A''\<rparr>]
       \<and> (fetchAcesphere rt (general_response w) = Inr scenario_payload \<longrightarrow>
            general (refreshNewsNow rt w c)
              = [\<lparr>date = ''03-01-2024 09:00'', headline = ''B''\<rparr>,
                 \<lparr>date = ''02-01-2024 15:04'', headline = ''A''\<rparr>])"
proof -
  note p = parse_scenario [OF assms]
  have n6: "normalize_sort_cap rt 6 scenario_payload
           = Inr [\<lparr>date = ''03-01-2024 09:00'', headline = ''B''\<rparr>,
                  \<lparr>date = ''02-01-2024 15:04'', headline = ''A''\<rparr>]"
    by (simp add: normalize_sort_cap_def p sort_scenario final_entry_def)
  have n4: "normalize_sort_cap rt 4 scenario_payload
           = Inr [\<lparr>date = ''03-01-2024 09:00'', headline = ''B''\<rparr>,
                  \<lparr>date = ''02-01-2024 15:04'', headline = ''A''\<rparr>]"
    by (simp add: normalize_sort_cap_def p sort_scenario final_entry_def)
  have cyc: "general (refreshNewsNow rt w c)
              = [\<lparr>date = ''03-01-2024 09:00'', headline = ''B''\<rparr>,
                 \<lparr>date = ''02-01-2024 15:04'', headline = ''A''\<rparr>]"
    if "fetchAcesphere rt (general_response w) = Inr scenario_payload"
  proof -
    have "acesphere_general rt w =
      Inr [\<lparr>item_headline = ''A'', dateRaw = JStr ''2024-01-02T15:04:00Z'', item_date = ''02-01-2024 15:04''\<rparr>,
          \<lparr>item_headline = ''B'', dateRaw = JStr ''2024-01-03T09:00:00Z'', item_date = ''03-01-2024 09:00''\<rparr>]"
      using that p by (simp add: acesphere_general_def)
    from refreshNewsNow_general_structured [OF this, of c] show ?thesis
      by (simp add: sort_scenario final_entry_def)
  qed
  show ?thesis using n6 n4 cyc by blast
qed

theorem C2_witness:
  "local_tza (example_runtime 0 [(scenario_body, scenario_payload)]) 1704207840000 = 0
   \<and> local_tza (example_runtime 0 [(scenario_body, scenario_payload)]) 1704272400000 = 0
   \<and> fetchAcesphere (example_runtime 0 [(scenario_body, scenario_payload)])
        (general_response scenario_cycle) = Inr scenario_payload
   \<and> normalize_sort_cap (example_runtime 0 [(scenario_body, scenario_payload)]) 6 scenario_payload
           = Inr [\<lparr>date = ''03-01-2024 09:00'', headline = ''B''\<rparr>,
                  \<lparr>date = ''02-01-2024 15:04'', headline = ''A''\<rparr>]
   \<and> general (refreshNewsNow (example_runtime 0 [(scenario_body, scenario_payload)])
                scenario_cycle cached_init)
        = [\<lparr>date = ''03-01-2024 09:00'', headline = ''B''\<rparr>,
           \<lparr>date = ''02-01-2024 15:04'', headline = ''A''\<rparr>]"
proof -
  have z: "local_tza (example_runtime 0 [(scenario_body, scenario_payload)]) t = 0" for t
    by (simp add: example_runtime_def)
  show ?thesis
    using C2_scenario_in_utc [OF z z, of scenario_cycle cached_init] scenario_fetch [of 0] z
    by simp
qed

text \<open>
  The formatter reads the local time: in a process five and a half hours ahead of
  UTC the same payload gives other dates.
\<close>

theorem C2_counterexample:
  "normalize_sort_cap (example_runtime 19800000 []) 6 scenario_payload
     = Inr [\<lparr>date = ''03-01-2024 14:30'', headline = ''B''\<rparr>,
            \<lparr>date = ''02-01-2024 20:34'', headline = ''A''\<rparr>]
   \<and> normalize_sort_cap (example_runtime 19800000 []) 6 scenario_payload
     \<noteq> Inr [\<lparr>date = ''03-01-2024 09:00'', headline = ''B''\<rparr>,
            \<lparr>date = ''02-01-2024 15:04'', headline = ''A''\<rparr>]"
proof -
  have e: "normalize_sort_cap (example_runtime 19800000 []) 6 scenario_payload
     = Inr [\<lparr>date = ''03-01-2024 14:30'', headline = ''B''\<rparr>,
            \<lparr>date = ''02-01-2024 20:34'', headline = ''A''\<rparr>]"
    by code_simp
  show ?thesis unfolding e by simp
qed

text \<open>
  C3. A body whose first character other than white space is \<^verbatim>\<open><\<close> makes
  \<^verbatim>\<open>fetchAcesphere\<close> throw its error for a response that is markup, and so makes the
  structured general strategy fail. And for every cycle in which the structured
  general strategy fails, for whatever reason, the general list cached by the cycle
  is what the fallback strategy alone produces: its records, under the same ordering
  rule and the same cap of 6, which are the first 6 headlines of the fallback with
  empty dates.
\<close>

theorem C3_fallback_alone_when_structured_fails:
  "(dropWhile is_ws text = CHR ''<'' # rest \<longrightarrow> fetchAcesphere rt (Body text) = Inl ReturnedHTML)
   \<and> (general_response w = Body text \<and> dropWhile is_ws text = CHR ''<'' # rest \<longrightarrow>
        acesphere_general rt w = Inl ReturnedHTML)
   \<and> (acesphere_general rt w = Inl e \<longrightarrow>
        (\<exists>fallbackItems fallbackSorted.
            fallback_general rt w = Inr fallbackItems
          \<and> sortByDateDesc rt fallbackItems = Inr fallbackSorted
          \<and> general (refreshNewsNow rt w c) = map final_entry (take 6 fallbackSorted))
        \<and> general (refreshNewsNow rt w c)
            = map (\<lambda>n. \<lparr>date = [], headline = nb_headline n\<rparr>)
                (take 6 (fetchNirmalbangHeadlines (nirmalbang_response w))))"
proof (intro conjI impI)
  assume "dropWhile is_ws text = CHR ''<'' # rest"
  then show "fetchAcesphere rt (Body text) = Inl ReturnedHTML"
    using first_nonspace_lt by (simp add: fetchAcesphere_def)
next
  assume "general_response w = Body text \<and> dropWhile is_ws text = CHR ''<'' # rest"
  then show "acesphere_general rt w = Inl ReturnedHTML"
    using first_nonspace_lt by (simp add: acesphere_general_def fetchAcesphere_def)
next
  assume f: "acesphere_general rt w = Inl e"
  let ?fb = "map (\<lambda>n. \<lparr>item_headline = nb_headline n, dateRaw = JNull, item_date = []\<rparr>)
              (fetchNirmalbangHeadlines (nirmalbang_response w))"
  have fb: "fallback_general rt w = Inr ?fb" by (rule fallback_general_eq)
  have so: "sortByDateDesc rt ?fb = Inr ?fb" by (rule sortByDateDesc_undated) simp
  have fg: "fetch_general rt w = Inr ?fb" using f fb by (simp add: fetch_general_def)
  obtain gi ds gs where r: "fetch_general rt w = Inr gi"
      "sortByDateDesc rt gi = Inr gs"
      "refreshNewsNow rt w c =
         \<lparr>derivative = map final_entry (take 4 ds), general = map final_entry (take 6 gs),
          lastUpdated = Some (now_iso w)\<rparr>"
    using refreshNewsNow_assigns [of rt w c] by blast
  have "gi = ?fb" using fg r(1) by simp
  then have "gs = ?fb" using so r(2) by simp
  then have g: "general (refreshNewsNow rt w c) = map final_entry (take 6 ?fb)"
    unfolding r(3) by simp
  show "\<exists>fallbackItems fallbackSorted.
            fallback_general rt w = Inr fallbackItems
          \<and> sortByDateDesc rt fallbackItems = Inr fallbackSorted
          \<and> general (refreshNewsNow rt w c) = map final_entry (take 6 fallbackSorted)"
    using fb so g by blast
  show "general (refreshNewsNow rt w c)
            = map (\<lambda>n. \<lparr>date = [], headline = nb_headline n\<rparr>)
                (take 6 (fetchNirmalbangHeadlines (nirmalbang_response w)))"
    unfolding g by (simp add: take_map final_entry_def comp_def)
qed

theorem C3_witness:
  "dropWhile is_ws '' <!DOCTYPE html><html></html>'' = CHR ''<'' # ''!DOCTYPE html><html></html>''
   \<and> general_response fallback_cycle = Body '' <!DOCTYPE html><html></html>''
   \<and> fetchAcesphere (example_runtime 0 []) (Body '' <!DOCTYPE html><html></html>'') = Inl ReturnedHTML
   \<and> acesphere_general (example_runtime 0 []) fallback_cycle = Inl ReturnedHTML
   \<and> general (refreshNewsNow (example_runtime 0 []) fallback_cycle earlier_cache)
       = [\<lparr>date = [], headline = ''Sensex up''\<rparr>]"
proof -
  have d: "dropWhile is_ws '' <!DOCTYPE html><html></html>'' = CHR ''<'' # ''!DOCTYPE html><html></html>''"
    by (simp add: is_ws_def)
  have g: "general_response fallback_cycle = Body '' <!DOCTYPE html><html></html>''"
    by (simp add: fallback_cycle_def)
  show ?thesis
    using C3_fallback_alone_when_structured_fails
      [of " '' <!DOCTYPE html><html></html>''" "''!DOCTYPE html><html></html>''"
          "example_runtime 0 []" fallback_cycle ReturnedHTML earlier_cache]
      d g
    by (simp add: fallback_cycle_headlines)
qed




section \<open>Properties of the date formatter\<close>

lemma div_bounds:
  fixes a b :: int
  assumes "0 < b"
  shows "b * (a div b) \<le> a" "a < b * (a div b) + b"
proof -
  have e: "a = b * (a div b) + a mod b" by simp
  show "b * (a div b) \<le> a" using e pos_mod_sign [OF assms, of a] by linarith
  show "a < b * (a div b) + b" using e pos_mod_bound [OF assms, of a] by linarith
qed

lemma doy_range:
  fixes r2 :: int
  assumes "0 \<le> r2" "r2 \<le> 1460"
  shows "0 \<le> r2 - min 3 (r2 div 365) * 365 \<and> r2 - min 3 (r2 div 365) * 365 \<le> 365"
proof -
  define k where "k = r2 div 365"
  have b: "365 * k \<le> r2" "r2 < 365 * k + 365"
    unfolding k_def using div_bounds [of 365 r2] by simp_all
  show ?thesis
    unfolding k_def [symmetric] using b assms by (cases "k \<le> 3") (simp_all add: min_def)
qed

lemma mp_range:
  fixes doy :: int
  assumes "0 \<le> doy" "doy \<le> 365"
  shows "0 \<le> (5 * doy + 2) div 153 \<and> (5 * doy + 2) div 153 \<le> 11"
proof -
  define mp where "mp = (5 * doy + 2) div 153"
  have b: "153 * mp \<le> 5 * doy + 2" "5 * doy + 2 < 153 * mp + 153"
    unfolding mp_def using div_bounds [of 153 "5 * doy + 2"] by simp_all
  show ?thesis unfolding mp_def [symmetric] using b assms by linarith
qed

lemma dom_range:
  fixes doy :: int
  assumes "0 \<le> doy" "doy \<le> 365"
  shows "1 \<le> doy - (153 * ((5 * doy + 2) div 153) + 2) div 5 + 1
       \<and> doy - (153 * ((5 * doy + 2) div 153) + 2) div 5 + 1 \<le> 31"
proof -
  define mp where "mp = (5 * doy + 2) div 153"
  have b: "153 * mp \<le> 5 * doy + 2" "5 * doy + 2 < 153 * mp + 153"
    unfolding mp_def using div_bounds [of 153 "5 * doy + 2"] by simp_all
  have r: "0 \<le> mp" "mp \<le> 11" using mp_range [OF assms] by (simp_all add: mp_def)
  then have "mp = 0 \<or> mp = 1 \<or> mp = 2 \<or> mp = 3 \<or> mp = 4 \<or> mp = 5 \<or> mp = 6 \<or> mp = 7
      \<or> mp = 8 \<or> mp = 9 \<or> mp = 10 \<or> mp = 11"
    by presburger
  then have "1 \<le> doy - (153 * mp + 2) div 5 + 1 \<and> doy - (153 * mp + 2) div 5 + 1 \<le> 31"
    using b by (elim disjE) simp_all
  then show ?thesis by (simp add: mp_def)
qed

lemma march_day_range: "0 \<le> march_day n \<and> march_day n \<le> 365"
proof -
  define r1 where "r1 = (n + 719468) mod 146097 - min 3 ((n + 719468) mod 146097 div 36524) * 36524"
  have a: "0 \<le> r1 mod 1461" by simp
  have b: "r1 mod 1461 < 1461" by simp
  have c: "r1 mod 1461 \<le> 1460" using b by linarith
  have "march_day n = r1 mod 1461 - min 3 (r1 mod 1461 div 365) * 365"
    unfolding march_day_def Let_def r1_def ..
  then show ?thesis using doy_range [OF a c] by simp
qed

lemma civil_from_days_range:
  "1 \<le> fst (snd (civil_from_days n)) \<and> fst (snd (civil_from_days n)) \<le> 12
   \<and> 1 \<le> snd (snd (civil_from_days n)) \<and> snd (snd (civil_from_days n)) \<le> 31"
proof -
  define doy where "doy = march_day n"
  define mp where "mp = (5 * doy + 2) div 153"
  have doy: "0 \<le> doy" "doy \<le> 365" using march_day_range [of n] by (simp_all add: doy_def)
  have mp: "0 \<le> mp" "mp \<le> 11" using mp_range [OF doy] by (simp_all add: mp_def)
  have d: "snd (snd (civil_from_days n)) = doy - (153 * mp + 2) div 5 + 1"
    unfolding civil_from_days_def Let_def doy_def mp_def by (simp only: snd_conv)
  have m: "fst (snd (civil_from_days n)) = (if mp < 10 then mp + 3 else mp - 9)"
    unfolding civil_from_days_def Let_def doy_def mp_def by (simp only: snd_conv fst_conv)
  have "1 \<le> snd (snd (civil_from_days n)) \<and> snd (snd (civil_from_days n)) \<le> 31"
    unfolding d mp_def using dom_range [OF doy] by simp
  moreover have "1 \<le> fst (snd (civil_from_days n)) \<and> fst (snd (civil_from_days n)) \<le> 12"
    unfolding m using mp by (cases "mp < 10") simp_all
  ultimately show ?thesis by simp
qed

text \<open>
  The calendar at some days: the epoch and the day before it, leap days of years
  divisible by 4 and by 400, the first of March of a century that is not a leap year,
  the first day of the year 0, and the last day of the range of \<^verbatim>\<open>Date\<close>.
\<close>

lemma civil_from_days_examples:
  "civil_from_days 0 = (1970, 1, 1)"
  "civil_from_days (- 1) = (1969, 12, 31)"
  "civil_from_days (MakeDay 2024 1 29) = (2024, 2, 29)"
  "civil_from_days (MakeDay 2000 1 29) = (2000, 2, 29)"
  "civil_from_days (MakeDay 1900 1 29) = (1900, 3, 1)"
  "civil_from_days (DayFromYear 0) = (0, 1, 1)"
  "civil_from_days 100000000 = (275760, 9, 13)"
  by code_simp+

lemma digit_char: "k < 10 \<Longrightarrow> is_digit (''0123456789'' ! k)"
proof -
  assume "k < 10"
  then have "k = 0 \<or> k = 1 \<or> k = 2 \<or> k = 3 \<or> k = 4 \<or> k = 5 \<or> k = 6 \<or> k = 7 \<or> k = 8 \<or> k = 9"
    by presburger
  then show ?thesis by (elim disjE) (simp_all add: is_digit_def)
qed

lemma show_nat_digits: "list_all is_digit (show_nat n) \<and> show_nat n \<noteq> []"
proof (induction n rule: show_nat.induct)
  case (1 n)
  show ?case
  proof (cases "n < 10")
    case True
    then show ?thesis using digit_char [of n] by (subst (1 2) show_nat.simps) simp
  next
    case False
    have "n mod 10 < 10" by simp
    then have "is_digit (''0123456789'' ! (n mod 10))" by (rule digit_char)
    then show ?thesis using False "1.IH" by (subst (1 2) show_nat.simps) simp
  qed
qed

lemma show_nat_length_1: "n < 10 \<Longrightarrow> length (show_nat n) = 1"
  by (subst show_nat.simps) simp

lemma show_nat_length_2: "10 \<le> n \<Longrightarrow> n < 100 \<Longrightarrow> length (show_nat n) = 2"
  by (subst show_nat.simps) (simp add: show_nat_length_1)

lemma show_nat_length_3: "100 \<le> n \<Longrightarrow> n < 1000 \<Longrightarrow> length (show_nat n) = 3"
  by (subst show_nat.simps) (simp add: show_nat_length_2)

lemma show_nat_length_4: "1000 \<le> n \<Longrightarrow> n < 10000 \<Longrightarrow> length (show_nat n) = 4"
  by (subst show_nat.simps) (simp add: show_nat_length_3)

lemma pad_two_digits:
  assumes "0 \<le> n" "n \<le> 99"
  shows "two_digits (pad n)"
proof (cases "n < 10")
  case True
  then have "length (show_nat (nat n)) = 1" using assms by (intro show_nat_length_1) simp
  then show ?thesis
    using assms show_nat_digits [of "nat n"]
    by (simp add: pad_def padStart2_def show_int_def two_digits_def is_digit_def)
next
  case False
  then have "length (show_nat (nat n)) = 2" using assms by (intro show_nat_length_2) simp_all
  then show ?thesis
    using assms show_nat_digits [of "nat n"]
    by (simp add: pad_def padStart2_def show_int_def two_digits_def)
qed

lemma show_int_year_text: "year_text (show_int y)"
proof (cases "y < 0")
  case True
  then show ?thesis
    using show_nat_digits [of "nat (- y)"] by (simp add: show_int_def year_text_def)
next
  case False
  obtain c cs where s: "show_nat (nat y) = c # cs"
    using show_nat_digits [of "nat y"] by (cases "show_nat (nat y)") auto
  have "list_all is_digit (c # cs)" using show_nat_digits [of "nat y"] s by simp
  moreover then have "c \<noteq> CHR ''-''" by (auto simp: is_digit_def)
  ultimately show ?thesis using False s by (simp add: show_int_def year_text_def)
qed

lemma show_int_four_digits:
  assumes "1000 \<le> y" "y \<le> 9999"
  shows "length (show_int y) = 4 \<and> list_all is_digit (show_int y)"
proof -
  have "length (show_nat (nat y)) = 4" using assms by (intro show_nat_length_4) simp_all
  then show ?thesis using assms show_nat_digits [of "nat y"] by (simp add: show_int_def)
qed

lemma shape_of_parts:
  assumes "two_digits D" "two_digits M" "year_text Y" "two_digits H" "two_digits N"
  shows "dd_mm_y_hh_mm (D @ ''-'' @ M @ ''-'' @ Y @ '' '' @ H @ '':'' @ N)"
proof -
  define P where "P = D @ ''-'' @ M @ ''-''"
  define T where "T = '' '' @ H @ '':'' @ N"
  have l: "length D = 2" "length M = 2" "length H = 2" "length N = 2"
    using assms by (auto simp: two_digits_def)
  have y: "1 \<le> length Y" using assms(3) by (cases Y) (simp_all add: year_text_def)
  have lp: "length P = 6" and lt: "length T = 6" using l by (simp_all add: P_def T_def)
  have s: "D @ ''-'' @ M @ ''-'' @ Y @ '' '' @ H @ '':'' @ N = P @ Y @ T"
    by (simp add: P_def T_def)
  have n: "length (P @ Y @ T) = 12 + length Y" using lp lt by simp
  have front: "slice 0 2 (P @ Y @ T) = D" "slice 2 3 (P @ Y @ T) = ''-''"
      "slice 3 5 (P @ Y @ T) = M" "slice 5 6 (P @ Y @ T) = ''-''"
    using l by (simp_all add: slice_def P_def)
  have mid: "slice 6 (12 + length Y - 6) (P @ Y @ T) = Y"
    using lp by (simp add: slice_def)
  have dropT: "drop (6 + length Y + k) (P @ Y @ T) = drop k T" for k
    using lp by simp
  have e6: "12 + length Y - 6 = 6 + length Y + 0" "12 + length Y - 5 = 6 + length Y + 1"
      "12 + length Y - 3 = 6 + length Y + 3" "12 + length Y - 2 = 6 + length Y + 4"
    by simp_all
  have tail: "slice (12 + length Y - 6) (12 + length Y - 5) (P @ Y @ T) = '' ''"
      "slice (12 + length Y - 5) (12 + length Y - 3) (P @ Y @ T) = H"
      "slice (12 + length Y - 3) (12 + length Y - 2) (P @ Y @ T) = '':''"
      "slice (12 + length Y - 2) (12 + length Y) (P @ Y @ T) = N"
    unfolding slice_def e6 dropT using l by (simp_all add: T_def)
  show ?thesis
    unfolding s dd_mm_y_hh_mm_def Let_def n front mid tail
    using assms y by simp
qed

lemma shape_of_parts_4:
  assumes "two_digits D" "two_digits M" "year_text Y" "two_digits H" "two_digits N"
    "length Y = 4" "list_all is_digit Y"
  shows "dd_mm_yyyy_hh_mm (D @ ''-'' @ M @ ''-'' @ Y @ '' '' @ H @ '':'' @ N)"
proof -
  have l: "length D = 2" "length M = 2" "length H = 2" "length N = 2"
    using assms by (auto simp: two_digits_def)
  show ?thesis
    using shape_of_parts [OF assms(1-5)] l assms(6,7)
    by (simp add: dd_mm_yyyy_hh_mm_def slice_def)
qed

lemma getters_range:
  "1 \<le> getDate rt t \<and> getDate rt t \<le> 31 \<and> 1 \<le> getMonth rt t + 1 \<and> getMonth rt t + 1 \<le> 12
   \<and> 0 \<le> getHours rt t \<and> getHours rt t \<le> 23 \<and> 0 \<le> getMinutes rt t \<and> getMinutes rt t \<le> 59"
proof -
  have c: "1 \<le> getDate rt t \<and> getDate rt t \<le> 31 \<and> 1 \<le> getMonth rt t + 1 \<and> getMonth rt t + 1 \<le> 12"
    using civil_from_days_range [of "Day (LocalTime rt t)"] by (simp add: getDate_def getMonth_def)
  have h: "0 \<le> getHours rt t \<and> getHours rt t < 24" by (simp add: getHours_def)
  have m: "0 \<le> getMinutes rt t \<and> getMinutes rt t < 60" by (simp add: getMinutes_def)
  show ?thesis using c h m by linarith
qed

lemma format_valid:
  assumes "truthy d" "time_value rt d = Inr (Some t)"
  shows "formatDateToDDMMYYYY_HHMM rt d =
     Inr (pad (getDate rt t) @ ''-'' @ pad (getMonth rt t + 1) @ ''-'' @ show_int (getFullYear rt t)
          @ '' '' @ pad (getHours rt t) @ '':'' @ pad (getMinutes rt t))"
  using assms by (simp add: formatDateToDDMMYYYY_HHMM_def Let_def)

lemma format_shape:
  "dd_mm_y_hh_mm (pad (getDate rt t) @ ''-'' @ pad (getMonth rt t + 1) @ ''-'' @ show_int (getFullYear rt t)
          @ '' '' @ pad (getHours rt t) @ '':'' @ pad (getMinutes rt t))
   \<and> (1000 \<le> getFullYear rt t \<and> getFullYear rt t \<le> 9999 \<longrightarrow>
        dd_mm_yyyy_hh_mm (pad (getDate rt t) @ ''-'' @ pad (getMonth rt t + 1) @ ''-''
          @ show_int (getFullYear rt t) @ '' '' @ pad (getHours rt t) @ '':'' @ pad (getMinutes rt t)))"
proof -
  note g = getters_range [of rt t]
  have D: "two_digits (pad (getDate rt t))" using g by (intro pad_two_digits) linarith+
  have M: "two_digits (pad (getMonth rt t + 1))" using g by (intro pad_two_digits) linarith+
  have H: "two_digits (pad (getHours rt t))" using g by (intro pad_two_digits) linarith+
  have N: "two_digits (pad (getMinutes rt t))" using g by (intro pad_two_digits) linarith+
  have Y: "year_text (show_int (getFullYear rt t))" by (rule show_int_year_text)
  show ?thesis
    using shape_of_parts [OF D M Y H N] shape_of_parts_4 [OF D M Y H N]
      show_int_four_digits [of "getFullYear rt t"]
    by blast
qed

lemma far_day: "civil_from_days (Day 1000000000000000) = (33658, 9, 27)"
  by code_simp

lemma far_pads: "pad 27 = ''27''" "pad 9 = ''09''" "pad 1 = ''01''" "pad 46 = ''46''"
  by code_simp+

lemma far_year: "show_int 33658 = ''33658''"
  by (simp add: show_int_def show_nat.simps [of 33658] show_nat.simps [of 3365]
      show_nat.simps [of 336] show_nat.simps [of 33] show_nat.simps [of 3])

text \<open>
  C6, as the code has it. For every input that is not an array or an object (so for
  every string, number, \<^verbatim>\<open>null\<close> and absent value), the formatter does not throw.
  It returns the empty string when the input is falsy (\<^verbatim>\<open>null\<close>, absent, the empty
  string, the number 0) and when the input is not a valid date. Otherwise it returns
  \<^verbatim>\<open>DD-MM-Y HH:MM\<close> in local time on the 24-hour clock: day, month, hours and
  minutes padded with zeros to two digits, and the full year in decimal, not padded,
  which has four digits, giving \<^verbatim>\<open>DD-MM-YYYY HH:MM\<close>, for the years 1000 to 9999.
\<close>

theorem C6_formatter_scalar_inputs:
  assumes "(\<forall>vs. d \<noteq> JArr vs) \<and> (\<forall>kvs. d \<noteq> JObj kvs)"
  shows "\<exists>out. formatDateToDDMMYYYY_HHMM rt d = Inr out
     \<and> (\<not> truthy d \<longrightarrow> out = [])
     \<and> (time_value rt d = Inr None \<longrightarrow> out = [])
     \<and> (\<forall>t. truthy d \<and> time_value rt d = Inr (Some t) \<longrightarrow>
           out = pad (getDate rt t) @ ''-'' @ pad (getMonth rt t + 1) @ ''-''
                   @ show_int (getFullYear rt t) @ '' '' @ pad (getHours rt t) @ '':''
                   @ pad (getMinutes rt t)
           \<and> dd_mm_y_hh_mm out
           \<and> (1000 \<le> getFullYear rt t \<and> getFullYear rt t \<le> 9999 \<longrightarrow> dd_mm_yyyy_hh_mm out))"
proof -
  obtain tv where tv: "time_value rt d = Inr tv"
    using assms by (cases d) auto
  show ?thesis
  proof (cases "truthy d")
    case False
    then show ?thesis by (simp add: formatDateToDDMMYYYY_HHMM_def)
  next
    case True
    show ?thesis
    proof (cases tv)
      case None
      then show ?thesis using True tv by (simp add: formatDateToDDMMYYYY_HHMM_def)
    next
      case (Some t)
      show ?thesis
        using format_valid [OF True, of rt t] format_shape [of rt t] tv Some True by simp
    qed
  qed
qed

theorem C6_witness:
  "formatDateToDDMMYYYY_HHMM (example_runtime 0 []) (JStr ''2024-01-02T15:04:00Z'') = Inr ''02-01-2024 15:04''
   \<and> truthy (JStr ''2024-01-02T15:04:00Z'')
   \<and> time_value (example_runtime 0 []) (JStr ''2024-01-02T15:04:00Z'') = Inr (Some 1704207840000)
   \<and> getFullYear (example_runtime 0 []) 1704207840000 = 2024
   \<and> dd_mm_yyyy_hh_mm ''02-01-2024 15:04''
   \<and> formatDateToDDMMYYYY_HHMM (example_runtime 0 []) (JStr ''tomorrow'') = Inr []"
proof -
  have z: "local_tza (example_runtime 0 []) t = 0" for t by (simp add: example_runtime_def)
  have f: "formatDateToDDMMYYYY_HHMM (example_runtime 0 []) (JStr ''2024-01-02T15:04:00Z'') = Inr ''02-01-2024 15:04''"
    by (rule fmtA) (rule z)
  have tv: "time_value (example_runtime 0 []) (JStr ''2024-01-02T15:04:00Z'') = Inr (Some 1704207840000)"
    by (simp add: Date_parse_def scenario_time_A)
  have y: "getFullYear (example_runtime 0 []) 1704207840000 = 2024"
    by (simp add: getFullYear_def LocalTime_def z scenario_day_A)
  have o: "time_value (example_runtime 0 []) (JStr ''tomorrow'') = Inr None"
    by (simp add: Date_parse_def iso_utc_parse_def example_runtime_def)
  show ?thesis
    using C6_formatter_scalar_inputs [of "JStr ''2024-01-02T15:04:00Z''" "example_runtime 0 []"]
      C6_formatter_scalar_inputs [of "JStr ''tomorrow''" "example_runtime 0 []"]
      f tv y o
    by auto
qed

text \<open>
  The timestamp 0 is neither \<^verbatim>\<open>null\<close> nor absent and is a valid date, and is
  formatted as the empty string; and a timestamp in the year 33658 is formatted with
  a year of five digits.
\<close>

theorem C6_counterexample:
  "formatDateToDDMMYYYY_HHMM (example_runtime 0 []) (JNum 0) = Inr []
   \<and> time_value (example_runtime 0 []) (JNum 0) = Inr (Some 0)
   \<and> \<not> dd_mm_yyyy_hh_mm []
   \<and> formatDateToDDMMYYYY_HHMM (example_runtime 0 []) (JNum 1000000000000000)
       = Inr ''27-09-33658 01:46''
   \<and> time_value (example_runtime 0 []) (JNum 1000000000000000) = Inr (Some 1000000000000000)
   \<and> \<not> dd_mm_yyyy_hh_mm ''27-09-33658 01:46''"
proof -
  have z: "local_tza (example_runtime 0 []) t = 0" for t by (simp add: example_runtime_def)
  have a: "formatDateToDDMMYYYY_HHMM (example_runtime 0 []) (JNum 0) = Inr []"
    by (simp add: formatDateToDDMMYYYY_HHMM_def)
  have b: "time_value (example_runtime 0 []) (JNum 0) = Inr (Some 0)"
    by (simp add: TimeClip_def)
  have c: "\<not> dd_mm_yyyy_hh_mm []"
    by (simp add: dd_mm_yyyy_hh_mm_def)
  have e: "time_value (example_runtime 0 []) (JNum 1000000000000000) = Inr (Some 1000000000000000)"
    by (simp add: TimeClip_def)
  have d: "formatDateToDDMMYYYY_HHMM (example_runtime 0 []) (JNum 1000000000000000)
       = Inr ''27-09-33658 01:46''"
    by (simp add: format_valid [OF _ e] getDate_def getMonth_def getFullYear_def getHours_def
        getMinutes_def LocalTime_def z far_day far_pads far_year)
  have f: "\<not> dd_mm_yyyy_hh_mm ''27-09-33658 01:46''"
    by (simp add: dd_mm_yyyy_hh_mm_def)
  show ?thesis using a b c d e f by simp
qed

section \<open>Properties of the accessor\<close>

lemma those_entries_cong:
  "\<forall>r \<in> set rs. entries st' r = entries st r \<Longrightarrow> those_entries st' rs = those_entries st rs"
  by (induction rs) (auto split: option.splits)

lemma those_entries_same:
  "entries st' = entries st \<Longrightarrow> those_entries st' rs = those_entries st rs"
  by (rule those_entries_cong) simp

lemma those_entries_append:
  "those_entries st (rs @ [r]) =
     (case those_entries st rs of
        None \<Rightarrow> None
      | Some es \<Rightarrow> (case entries st r of None \<Rightarrow> None | Some e \<Rightarrow> Some (es @ [e])))"
  by (induction rs) (auto split: option.splits)

lemma array_contents_same:
  assumes "arrays st' a = arrays st a" and "entries st' = entries st"
  shows "array_contents st' a = array_contents st a"
proof -
  have "those_entries st' rs = those_entries st rs" for rs
    using assms(2) by (rule those_entries_same)
  then show ?thesis unfolding array_contents_def assms(1) by (cases "arrays st a") simp_all
qed

lemma contents_same:
  assumes "arrays st' (derivative_ref ob) = arrays st (derivative_ref ob)"
    and "arrays st' (general_ref ob) = arrays st (general_ref ob)"
    and "entries st' = entries st"
    and "derivative_ref ob' = derivative_ref ob" "general_ref ob' = general_ref ob"
    and "lastUpdated_val ob' = lastUpdated_val ob"
  shows "contents st' ob' = contents st ob"
proof -
  have d: "array_contents st' (derivative_ref ob') = array_contents st (derivative_ref ob)"
    unfolding assms(4) by (rule array_contents_same [OF assms(1) assms(3)])
  have g: "array_contents st' (general_ref ob') = array_contents st (general_ref ob)"
    unfolding assms(5) by (rule array_contents_same [OF assms(2) assms(3)])
  show ?thesis unfolding contents_def d g assms(6) ..
qed

lemma read_cache_eq: "read_cache st = contents st (cached_obj st)"
proof -
  let ?ob = "\<lparr>derivative_ref = derivative_ref (cached_obj st),
               general_ref = general_ref (cached_obj st),
               lastUpdated_val = lastUpdated_val (cached_obj st)\<rparr>"
  let ?st = "st\<lparr>returned := (returned st)(next_ref st \<mapsto> ?ob), next_ref := Suc (next_ref st)\<rparr>"
  have "read_cache st = contents ?st ?ob"
    by (simp add: read_cache_def getCachedNews_def)
  also have "\<dots> = contents st (cached_obj st)"
    by (rule contents_same) simp_all
  finally show ?thesis .
qed

lemma field_assignment_keeps_cache:
  assumes "store_ok st" and "m = AssignEmptyList f \<or> m = AssignLastUpdated v"
  shows "read_after_mutation st m = read_cache st"
proof -
  let ?ob = "\<lparr>derivative_ref = derivative_ref (cached_obj st),
               general_ref = general_ref (cached_obj st),
               lastUpdated_val = lastUpdated_val (cached_obj st)\<rparr>"
  let ?st = "st\<lparr>returned := (returned st)(next_ref st \<mapsto> ?ob), next_ref := Suc (next_ref st)\<rparr>"
  have g: "getCachedNews st = (next_ref st, ?st)" by (simp add: getCachedNews_def)
  have lt: "derivative_ref (cached_obj st) \<noteq> Suc (next_ref st)"
      "general_ref (cached_obj st) \<noteq> Suc (next_ref st)"
    using assms(1) by (simp_all add: store_ok_def)
  have c: "contents (mutate (next_ref st) m ?st) (cached_obj (mutate (next_ref st) m ?st))
      = contents st (cached_obj st)"
    using assms(2)
  proof
    assume m: "m = AssignEmptyList f"
    show ?thesis unfolding m by (rule contents_same) (use lt in simp_all)
  next
    assume m: "m = AssignLastUpdated v"
    show ?thesis unfolding m by (rule contents_same) simp_all
  qed
  show ?thesis
    unfolding read_after_mutation_def g read_cache_eq using c by simp
qed

lemma push_is_visible:
  assumes ok: "store_ok st" and rd: "read_cache st = Some c"
  shows "read_after_mutation st (Push f e)
     = Some (case f of Derivative \<Rightarrow> c\<lparr>derivative := derivative c @ [e]\<rparr>
                     | General \<Rightarrow> c\<lparr>general := general c @ [e]\<rparr>)"
proof -
  let ?d = "derivative_ref (cached_obj st)" and ?g = "general_ref (cached_obj st)"
  let ?n = "Suc (next_ref st)"
  let ?ob = "\<lparr>derivative_ref = ?d, general_ref = ?g, lastUpdated_val = lastUpdated_val (cached_obj st)\<rparr>"
  let ?st = "st\<lparr>returned := (returned st)(next_ref st \<mapsto> ?ob), next_ref := ?n\<rparr>"
  have g: "getCachedNews st = (next_ref st, ?st)" by (simp add: getCachedNews_def)
  obtain ds gs where arr: "arrays st ?d = Some ds" "arrays st ?g = Some gs"
      and old: "list_all (\<lambda>r. r < next_ref st) ds" "list_all (\<lambda>r. r < next_ref st) gs"
      and ne: "?d \<noteq> ?g"
    using ok by (auto simp: store_ok_def split: option.splits)
  obtain des ges where es: "those_entries st ds = Some des" "those_entries st gs = Some ges"
      and c: "c = \<lparr>derivative = des, general = ges, lastUpdated = lastUpdated_val (cached_obj st)\<rparr>"
    using rd arr unfolding read_cache_eq
    by (auto simp: contents_def array_contents_def split: option.splits)
  let ?a = "field_ref ?ob f"
  obtain rs where rs: "arrays st ?a = Some rs" "rs = (case f of Derivative \<Rightarrow> ds | General \<Rightarrow> gs)"
    using arr by (cases f) simp_all
  let ?st2 = "?st\<lparr>entries := (entries ?st)(?n \<mapsto> e),
                  arrays := (arrays ?st)(?a \<mapsto> rs @ [?n]),
                  next_ref := Suc ?n\<rparr>"
  have m: "mutate (next_ref st) (Push f e) ?st = ?st2"
    using rs(1) by simp
  have keep: "those_entries ?st2 xs = those_entries st xs" if "list_all (\<lambda>r. r < next_ref st) xs" for xs
    using that by (intro those_entries_cong) (auto simp: list_all_iff)
  have fresh: "entries ?st2 ?n = Some e" by simp
  have pushed: "those_entries ?st2 (xs @ [?n]) = Some (xes @ [e])"
    if "list_all (\<lambda>r. r < next_ref st) xs" "those_entries st xs = Some xes" for xs xes
    using keep [OF that(1)] that(2) fresh by (simp add: those_entries_append)
  have "contents ?st2 (cached_obj ?st2)
      = Some (case f of Derivative \<Rightarrow> c\<lparr>derivative := derivative c @ [e]\<rparr>
                     | General \<Rightarrow> c\<lparr>general := general c @ [e]\<rparr>)"
  proof (cases f)
    case Derivative
    then have r: "rs = ds" using rs(2) by simp
    have "array_contents ?st2 ?d = Some (des @ [e])"
      using Derivative pushed [OF old(1) es(1)] by (simp add: array_contents_def r)
    moreover have "array_contents ?st2 ?g = Some ges"
      using Derivative ne arr(2) keep [OF old(2)] es(2) by (simp add: array_contents_def)
    ultimately show ?thesis using Derivative c by (simp add: contents_def)
  next
    case General
    then have r: "rs = gs" using rs(2) by simp
    have "array_contents ?st2 ?g = Some (ges @ [e])"
      using General pushed [OF old(2) es(2)] by (simp add: array_contents_def r)
    moreover have "array_contents ?st2 ?d = Some des"
      using General ne arr(1) keep [OF old(1)] es(1) by (simp add: array_contents_def)
    ultimately show ?thesis using General c by (simp add: contents_def)
  qed
  then have "read_cache ?st2
      = Some (case f of Derivative \<Rightarrow> c\<lparr>derivative := derivative c @ [e]\<rparr>
                     | General \<Rightarrow> c\<lparr>general := general c @ [e]\<rparr>)"
    by (simp only: read_cache_eq)
  moreover have "read_after_mutation st (Push f e) = read_cache (mutate (next_ref st) (Push f e) ?st)"
    unfolding read_after_mutation_def g by (simp only: prod.case)
  ultimately show ?thesis by (simp only: m)
qed

lemma alloc_entries_spec:
  assumes "alloc_entries es st = (rs, st')"
  shows "next_ref st' = next_ref st + length es
       \<and> list_all (\<lambda>r. next_ref st \<le> r \<and> r < next_ref st') rs
       \<and> arrays st' = arrays st \<and> returned st' = returned st \<and> cached_obj st' = cached_obj st
       \<and> (\<forall>r. r < next_ref st \<longrightarrow> entries st' r = entries st r)
       \<and> those_entries st' rs = Some es"
  using assms
proof (induction es arbitrary: st rs st')
  case Nil
  then show ?case by simp
next
  case (Cons e es)
  let ?st1 = "st\<lparr>entries := (entries st)(next_ref st \<mapsto> e), next_ref := Suc (next_ref st)\<rparr>"
  obtain rs1 where a: "alloc_entries es ?st1 = (rs1, st')" and rs: "rs = next_ref st # rs1"
    using Cons.prems by (auto split: prod.splits)
  note ih = Cons.IH [OF a]
  have n: "next_ref st' = next_ref st + length (e # es)" using ih by simp
  have here: "entries st' (next_ref st) = Some e" using ih by simp
  have range: "list_all (\<lambda>r. next_ref st \<le> r \<and> r < next_ref st') rs"
    using ih rs by (auto simp: list_all_iff)
  have below: "\<forall>r. r < next_ref st \<longrightarrow> entries st' r = entries st r" using ih by simp
  have "those_entries st' rs = Some (e # es)" using ih here rs by simp
  then show ?case using n range below ih by simp
qed

lemma alloc_array_spec:
  assumes "alloc_array es st = (a, st')"
  shows "next_ref st \<le> a \<and> a < next_ref st'
       \<and> returned st' = returned st \<and> cached_obj st' = cached_obj st
       \<and> (\<forall>b. b < next_ref st \<longrightarrow> arrays st' b = arrays st b)
       \<and> (\<forall>r. r < next_ref st \<longrightarrow> entries st' r = entries st r)
       \<and> (\<exists>rs. arrays st' a = Some rs \<and> list_all (\<lambda>r. r < next_ref st') rs)
       \<and> array_contents st' a = Some es"
proof -
  obtain rs st1 where al: "alloc_entries es st = (rs, st1)" by (cases "alloc_entries es st")
  note sp = alloc_entries_spec [OF al]
  have a: "a = next_ref st1" and st': "st' = st1\<lparr>arrays := (arrays st1)(next_ref st1 \<mapsto> rs),
                            next_ref := Suc (next_ref st1)\<rparr>"
    using assms al by (auto simp: alloc_array_def)
  have "those_entries st' rs = those_entries st1 rs"
    by (rule those_entries_same) (simp add: st')
  then have te: "those_entries st' rs = Some es" using sp by simp
  have lt: "list_all (\<lambda>r. r < next_ref st') rs" using sp by (auto simp: st' list_all_iff)
  show ?thesis using sp te lt by (simp add: a st' array_contents_def)
qed

lemma assign_cached_spec:
  "store_ok (assign_cached c st) \<and> read_cache (assign_cached c st) = Some c"
proof -
  obtain d st1 where a1: "alloc_array (derivative c) st = (d, st1)" by (cases "alloc_array (derivative c) st")
  obtain g st2 where a2: "alloc_array (general c) st1 = (g, st2)" by (cases "alloc_array (general c) st1")
  note s1 = alloc_array_spec [OF a1] and s2 = alloc_array_spec [OF a2]
  let ?st = "st2\<lparr>cached_obj := \<lparr>derivative_ref = d, general_ref = g, lastUpdated_val = lastUpdated c\<rparr>\<rparr>"
  have as: "assign_cached c st = ?st" by (simp add: assign_cached_def a1 a2)
  have dg: "d < g" "d < next_ref st1" "g < next_ref st2" using s1 s2 by simp_all
  obtain ds where ds: "arrays st1 d = Some ds" "list_all (\<lambda>r. r < next_ref st1) ds"
    using s1 by blast
  obtain gs where gs: "arrays st2 g = Some gs" "list_all (\<lambda>r. r < next_ref st2) gs"
    using s2 by blast
  have d2: "arrays st2 d = Some ds" using s2 dg ds by simp
  have keep: "those_entries st2 ds = those_entries st1 ds"
    using s2 ds(2) by (intro those_entries_cong) (auto simp: list_all_iff)
  have cd: "array_contents st2 d = Some (derivative c)"
    using s1 ds d2 keep by (simp add: array_contents_def)
  have cg: "array_contents st2 g = Some (general c)" using s2 by simp
  have n12: "next_ref st1 \<le> next_ref st2" using s2 by simp
  have ok: "store_ok ?st"
    using dg d2 gs ds(2) n12 by (auto simp: store_ok_def list_all_iff)
  have "contents ?st (cached_obj ?st) = contents st2 \<lparr>derivative_ref = d, general_ref = g, lastUpdated_val = lastUpdated c\<rparr>"
    by (rule contents_same) simp_all
  also have "\<dots> = Some c" using cd cg by (simp add: contents_def)
  finally show ?thesis using ok by (simp add: as read_cache_eq)
qed

lemma store_init_ok: "store_ok store_init \<and> read_cache store_init = Some cached_init"
  by (simp add: store_ok_def store_init_def read_cache_eq contents_def array_contents_def cached_init_def)

lemma those_entries_length:
  "those_entries st rs = Some es \<Longrightarrow> length es = length rs"
  by (induction rs arbitrary: es) (auto split: option.splits)

lemma those_entries_nth:
  "those_entries st rs = Some es \<Longrightarrow> i < length rs \<Longrightarrow> entries st (rs ! i) = Some (es ! i)"
proof (induction rs arbitrary: es i)
  case Nil
  then show ?case by simp
next
  case (Cons r rs)
  then obtain e es' where p: "entries st r = Some e" "those_entries st rs = Some es'" "es = e # es'"
    by (auto split: option.splits)
  show ?case
  proof (cases i)
    case 0
    then show ?thesis using p by simp
  next
    case (Suc j)
    then show ?thesis using Cons.IH [OF p(2), of j] Cons.prems(2) p(3) by simp
  qed
qed

lemma those_entries_update:
  assumes "those_entries st rs = Some es" and "entries st' = (entries st)(r \<mapsto> e')"
  shows "those_entries st' rs = Some (map (\<lambda>(q, e). if q = r then e' else e) (zip rs es))"
  using assms(1)
proof (induction rs arbitrary: es)
  case Nil
  then show ?case by simp
next
  case (Cons q rs)
  then obtain e es' where p: "entries st q = Some e" "those_entries st rs = Some es'" "es = e # es'"
    by (auto split: option.splits)
  show ?case using Cons.IH [OF p(2)] p assms(2) by simp
qed

lemma set_headline_is_visible:
  assumes ok: "store_ok st" and rd: "read_cache st = Some c" and i: "i < length (field_list c f)"
  shows "\<exists>c'. read_after_mutation st (SetHeadline f i s) = Some c'
      \<and> length (field_list c' f) = length (field_list c f)
      \<and> field_list c' f ! i = (field_list c f ! i)\<lparr>headline := s\<rparr>
      \<and> lastUpdated c' = lastUpdated c"
proof -
  let ?d = "derivative_ref (cached_obj st)" and ?g = "general_ref (cached_obj st)"
  let ?ob = "\<lparr>derivative_ref = ?d, general_ref = ?g, lastUpdated_val = lastUpdated_val (cached_obj st)\<rparr>"
  let ?st = "st\<lparr>returned := (returned st)(next_ref st \<mapsto> ?ob), next_ref := Suc (next_ref st)\<rparr>"
  have g: "getCachedNews st = (next_ref st, ?st)" by (simp add: getCachedNews_def)
  obtain ds gs where arr: "arrays st ?d = Some ds" "arrays st ?g = Some gs"
    using ok by (auto simp: store_ok_def split: option.splits)
  obtain des ges where es: "those_entries st ds = Some des" "those_entries st gs = Some ges"
      and c: "c = \<lparr>derivative = des, general = ges, lastUpdated = lastUpdated_val (cached_obj st)\<rparr>"
    using rd arr unfolding read_cache_eq
    by (auto simp: contents_def array_contents_def split: option.splits)
  let ?a = "field_ref ?ob f"
  obtain rs res where rs: "arrays st ?a = Some rs" "those_entries st rs = Some res"
      "res = field_list c f"
    using arr es c by (cases f) simp_all
  have len: "length res = length rs" using rs(2) by (rule those_entries_length)
  then have ir: "i < length rs" using i rs(3) by simp
  have ei: "entries st (rs ! i) = Some (res ! i)" using those_entries_nth [OF rs(2) ir] .
  let ?e' = "(res ! i)\<lparr>headline := s\<rparr>"
  let ?st2 = "?st\<lparr>entries := (entries ?st)(rs ! i \<mapsto> ?e')\<rparr>"
  have m: "mutate (next_ref st) (SetHeadline f i s) ?st = ?st2"
    using rs(1) ir ei by simp
  have upd: "those_entries ?st2 xs = Some (map (\<lambda>(q, e). if q = rs ! i then ?e' else e) (zip xs xes))"
    if "those_entries st xs = Some xes" for xs xes
    by (rule those_entries_update [OF that]) simp
  let ?up = "\<lambda>xs xes. map (\<lambda>(q, e). if q = rs ! i then ?e' else e) (zip xs xes)"
  have cont: "contents ?st2 (cached_obj ?st2)
      = Some \<lparr>derivative = ?up ds des, general = ?up gs ges,
              lastUpdated = lastUpdated_val (cached_obj st)\<rparr>"
    using arr upd [OF es(1)] upd [OF es(2)] by (simp add: contents_def array_contents_def)
  have el: "length (?up rs res) = length res \<and> ?up rs res ! i = ?e'"
    using ir len by simp
  have fl: "field_list \<lparr>derivative = ?up ds des, general = ?up gs ges,
              lastUpdated = lastUpdated_val (cached_obj st)\<rparr> f = ?up rs res"
  proof (cases f)
    case Derivative
    then have "rs = ds" "res = des" using rs arr c by simp_all
    then show ?thesis using Derivative by simp
  next
    case General
    then have "rs = gs" "res = ges" using rs arr c by simp_all
    then show ?thesis using General by simp
  qed
  have "read_after_mutation st (SetHeadline f i s) = read_cache (mutate (next_ref st) (SetHeadline f i s) ?st)"
    unfolding read_after_mutation_def g by (simp only: prod.case)
  also have "\<dots> = read_cache ?st2" by (simp only: m)
  also have "\<dots> = Some \<lparr>derivative = ?up ds des, general = ?up gs ges,
              lastUpdated = lastUpdated_val (cached_obj st)\<rparr>"
    using cont by (simp only: read_cache_eq)
  finally show ?thesis
    using fl el rs(3) c by (intro exI conjI) (assumption, simp_all)
qed

text \<open>
  C8, as the code has it. The accessor returns a new object that holds the cache's
  own two lists. For every store that load and refresh cycles produce, assigning to
  a field of the value returned (a new list, another \<^verbatim>\<open>lastUpdated\<close>) leaves the
  cache as it was, and a later read is not affected. But the lists are shared, not
  copied: an element appended to a list of the value returned is appended to the
  cache's list, and a later read shows it; and a headline assigned to an element of
  a list of the value returned is assigned to the cache's element, and a later read
  shows the new headline at that position.
\<close>

theorem C8_accessor_shares_its_lists:
  assumes "store_ok st"
  shows "read_after_mutation st (AssignEmptyList f) = read_cache st
     \<and> read_after_mutation st (AssignLastUpdated v) = read_cache st
     \<and> (read_cache st = Some c \<longrightarrow>
          read_after_mutation st (Push f e)
            = Some (case f of Derivative \<Rightarrow> c\<lparr>derivative := derivative c @ [e]\<rparr>
                            | General \<Rightarrow> c\<lparr>general := general c @ [e]\<rparr>))
     \<and> (read_cache st = Some c \<and> i < length (field_list c f) \<longrightarrow>
          (\<exists>c'. read_after_mutation st (SetHeadline f i s) = Some c'
             \<and> length (field_list c' f) = length (field_list c f)
             \<and> field_list c' f ! i = (field_list c f ! i)\<lparr>headline := s\<rparr>
             \<and> lastUpdated c' = lastUpdated c))
     \<and> store_ok store_init \<and> read_cache store_init = Some cached_init
     \<and> store_ok (assign_cached c' st') \<and> read_cache (assign_cached c' st') = Some c'"
proof -
  have a: "read_after_mutation st (AssignEmptyList f) = read_cache st"
    by (rule field_assignment_keeps_cache [OF assms, of _ f None]) simp
  have b: "read_after_mutation st (AssignLastUpdated v) = read_cache st"
    by (rule field_assignment_keeps_cache [OF assms, of _ General v]) simp
  have h: "\<exists>c'. read_after_mutation st (SetHeadline f i s) = Some c'
             \<and> length (field_list c' f) = length (field_list c f)
             \<and> field_list c' f ! i = (field_list c f ! i)\<lparr>headline := s\<rparr>
             \<and> lastUpdated c' = lastUpdated c"
    if "read_cache st = Some c" "i < length (field_list c f)"
    using set_headline_is_visible [OF assms that] .
  have p: "read_cache st = Some c \<longrightarrow>
          read_after_mutation st (Push f e)
            = Some (case f of Derivative \<Rightarrow> c\<lparr>derivative := derivative c @ [e]\<rparr>
                            | General \<Rightarrow> c\<lparr>general := general c @ [e]\<rparr>)"
    using push_is_visible [OF assms, of c f e] by simp
  show ?thesis
    using a b p h store_init_ok assign_cached_spec [of c' st']
    by blast
qed

theorem C8_witness:
  "store_ok (assign_cached earlier_cache store_init)
   \<and> read_cache (assign_cached earlier_cache store_init) = Some earlier_cache
   \<and> read_after_mutation (assign_cached earlier_cache store_init) (AssignEmptyList General)
       = Some earlier_cache
   \<and> read_after_mutation (assign_cached earlier_cache store_init) (AssignLastUpdated None)
       = Some earlier_cache
   \<and> read_after_mutation (assign_cached earlier_cache store_init)
         (Push General \<lparr>date = [], headline = ''injected''\<rparr>)
       = Some (earlier_cache\<lparr>general := general earlier_cache @ [\<lparr>date = [], headline = ''injected''\<rparr>]\<rparr>)
   \<and> 0 < length (field_list earlier_cache General)
   \<and> (\<exists>c'. read_after_mutation (assign_cached earlier_cache store_init)
               (SetHeadline General 0 ''tampered'') = Some c'
          \<and> length (general c') = 1
          \<and> general c' ! 0 = \<lparr>date = ''03-01-2024 09:00'', headline = ''tampered''\<rparr>
          \<and> lastUpdated c' = Some ''2024-01-03T09:30:00.000Z'')"
proof -
  note s = assign_cached_spec [of earlier_cache store_init]
  have ok: "store_ok (assign_cached earlier_cache store_init)" using s by simp
  have l: "0 < length (field_list earlier_cache General)" by (simp add: earlier_cache_def)
  show ?thesis
    using C8_accessor_shares_its_lists
      [OF ok, of General None earlier_cache "\<lparr>date = [], headline = ''injected''\<rparr>" 0 "''tampered''"] s l
    by (simp add: earlier_cache_def)
qed

text \<open>
  Through the value returned a caller changes the cache: after a cycle that cached
  one general record, appending to the returned general list, or assigning to the
  headline of its first element, changes what the next read returns.
\<close>

theorem C8_counterexample:
  "read_cache (assign_cached earlier_cache store_init) = Some earlier_cache
   \<and> read_after_mutation (assign_cached earlier_cache store_init)
         (Push General \<lparr>date = [], headline = ''injected''\<rparr>)
       = Some \<lparr>derivative = [],
               general = [\<lparr>date = ''03-01-2024 09:00'', headline = ''B''\<rparr>,
                          \<lparr>date = [], headline = ''injected''\<rparr>],
               lastUpdated = Some ''2024-01-03T09:30:00.000Z''\<rparr>
   \<and> read_after_mutation (assign_cached earlier_cache store_init)
         (SetHeadline General 0 ''tampered'')
       = Some \<lparr>derivative = [],
               general = [\<lparr>date = ''03-01-2024 09:00'', headline = ''tampered''\<rparr>],
               lastUpdated = Some ''2024-01-03T09:30:00.000Z''\<rparr>
   \<and> read_after_mutation (assign_cached earlier_cache store_init)
         (Push General \<lparr>date = [], headline = ''injected''\<rparr>)
       \<noteq> read_cache (assign_cached earlier_cache store_init)
   \<and> read_after_mutation (assign_cached earlier_cache store_init)
         (SetHeadline General 0 ''tampered'')
       \<noteq> read_cache (assign_cached earlier_cache store_init)"
proof -
  have r: "read_cache (assign_cached earlier_cache store_init) = Some earlier_cache"
    using assign_cached_spec [of earlier_cache store_init] by simp
  have p: "read_after_mutation (assign_cached earlier_cache store_init)
         (Push General \<lparr>date = [], headline = ''injected''\<rparr>)
       = Some \<lparr>derivative = [],
               general = [\<lparr>date = ''03-01-2024 09:00'', headline = ''B''\<rparr>,
                          \<lparr>date = [], headline = ''injected''\<rparr>],
               lastUpdated = Some ''2024-01-03T09:30:00.000Z''\<rparr>"
    by (simp add: read_after_mutation_def read_cache_def getCachedNews_def assign_cached_def
        alloc_array_def store_init_def earlier_cache_def contents_def array_contents_def)
  have h: "read_after_mutation (assign_cached earlier_cache store_init)
         (SetHeadline General 0 ''tampered'')
       = Some \<lparr>derivative = [],
               general = [\<lparr>date = ''03-01-2024 09:00'', headline = ''tampered''\<rparr>],
               lastUpdated = Some ''2024-01-03T09:30:00.000Z''\<rparr>"
    by (simp add: read_after_mutation_def read_cache_def getCachedNews_def assign_cached_def
        alloc_array_def store_init_def earlier_cache_def contents_def array_contents_def)
  show ?thesis unfolding p h r by (simp add: earlier_cache_def)
qed

end
